theory Spec2Isabelle
  imports Complex_Main "HOL-Library.Sublist" "HOL-Library.Log_Nat"
begin

section \<open>Strings and cells\<close>

text \<open>
  A JavaScript string is a sequence of UTF-16 code units; \<open>length\<close>, \<open>includes\<close>,
  \<open>trim\<close> and the regular expressions of the engine all work on code units, so a
  string is modelled as the list of its code units (natural numbers below 65536).
\<close>

type_synonym jstr = "nat list"

text \<open>
  A cell of a sheet (\<open>any\<close> in the source): \<open>null\<close>/\<open>undefined\<close>, a number or a text.
  The numeric cells of the model are the integers of magnitude below \<open>10^21\<close>, which
  \<open>String\<close> renders in plain decimal digits; numbers with a fraction and larger
  numbers, which JavaScript renders in other forms, are outside the model.
\<close>

datatype cell = CNull | CNum int | CStr jstr

text \<open>White space as \<open>String.prototype.trim\<close> and the regex class \<open>\s\<close> define it.\<close>

definition is_ws :: "nat \<Rightarrow> bool" where
  "is_ws c = (c \<in> {9, 10, 11, 12, 13, 32, 160, 0x1680, 0x2028, 0x2029, 0x202F, 0x205F, 0x3000, 0xFEFF}
              \<or> (0x2000 \<le> c \<and> c \<le> 0x200A))"

definition trim :: "jstr \<Rightarrow> jstr" where
  "trim s = rev (dropWhile is_ws (rev (dropWhile is_ws s)))"

fun digits_of :: "nat \<Rightarrow> jstr" where
  "digits_of n = (if n < 10 then [48 + n] else digits_of (n div 10) @ [48 + n mod 10])"

declare digits_of.simps [simp del]

definition num_str :: "int \<Rightarrow> jstr" where
  "num_str i = (if i < 0 then 45 # digits_of (nat (- i)) else digits_of (nat i))"

text \<open>\<open>String(v ?? "")\<close>.\<close>

fun toStr :: "cell \<Rightarrow> jstr" where
  "toStr CNull = []"
| "toStr (CNum n) = num_str n"
| "toStr (CStr s) = s"

text \<open>\<open>h.includes(k)\<close>: \<open>k\<close> occurs in \<open>h\<close> as a contiguous run of code units.\<close>

fun str_includes :: "jstr \<Rightarrow> jstr \<Rightarrow> bool" where
  "str_includes [] k = (k = [])"
| "str_includes (x # xs) k = (prefix k (x # xs) \<or> str_includes xs k)"

text \<open>
  A row of a block is an object from column keys to cells (\<open>Record<string, any>\<close>);
  reading a key that is not there gives \<open>undefined\<close>.
\<close>

type_synonym row = "jstr \<Rightarrow> cell option"

definition rget :: "row \<Rightarrow> jstr \<Rightarrow> cell" where
  "rget r k = (case r k of None \<Rightarrow> CNull | Some v \<Rightarrow> v)"

section \<open>Columns, blocks and exam records\<close>

record ParsedColumn =
  key :: jstr
  label :: jstr
  colIndex :: nat

text \<open>
  \<open>ExamConfig\<close>, with the fields the import engine computes from the chosen block.
  An absent optional column (\<open>nameCol?\<close>, \<open>classCol?\<close>, \<open>totalCol?\<close>) is the empty
  string, which is what the engine stores and what its truthiness tests read.
\<close>

datatype fatal = MultipleNameCols nat | NoNameCol
datatype warning = TotalSuspicious

record ExamConfig =
  examId :: jstr
  fileName :: jstr
  sheetName :: jstr
  examName :: jstr
  blockId :: jstr
  cols :: "ParsedColumn list"
  rows :: "row list"
  idCol :: jstr
  nameCol :: jstr
  classCol :: jstr
  totalCol :: jstr
  inferredClass :: jstr
  overrideClass :: jstr
  fatalErrors :: "fatal list"
  warnings :: "warning list"

text \<open>The three class labels the engine produces besides the classes it reads.\<close>

definition unknownClass :: jstr where
  "unknownClass = [0x672A, 0x77E5, 0x73ED, 0x7EA7]"

definition schoolWide :: jstr where
  "schoolWide = [0x5168, 0x6821]"

section \<open>Effective class\<close>

text \<open>A JavaScript \<open>Set\<close> of strings in insertion order: \<open>add\<close> keeps the first occurrence.\<close>

definition set_add :: "jstr list \<Rightarrow> jstr \<Rightarrow> jstr list" where
  "set_add s v = (if v \<in> set s then s else s @ [v])"

text \<open>
  The loop of \<open>getEffectiveClass\<close> over \<open>ex.rows.slice(0, 300)\<close>: \<open>null\<close> and
  \<open>undefined\<close> cells and blank texts are skipped, and the loop breaks as soon as two
  distinct values are in the set.
\<close>

fun classValues :: "jstr \<Rightarrow> row list \<Rightarrow> jstr list \<Rightarrow> jstr list" where
  "classValues col [] acc = acc"
| "classValues col (r # rs) acc =
     (case rget r col of
        CNull \<Rightarrow> classValues col rs acc
      | raw \<Rightarrow>
          (let v = trim (toStr raw) in
           if v = [] then classValues col rs acc
           else (let acc' = set_add acc v in
                 if length acc' \<ge> 2 then acc' else classValues col rs acc')))"

definition getEffectiveClass :: "ExamConfig \<Rightarrow> jstr" where
  "getEffectiveClass ex =
     (let c = trim (overrideClass ex) in
      if c \<noteq> [] then c
      else if classCol ex \<noteq> [] then
        (let s = classValues (classCol ex) (take 300 (rows ex)) [] in
         if length s = 1 then hd s
         else if length s \<ge> 2 then schoolWide
         else unknownClass)
      else if inferredClass ex \<noteq> [] then inferredClass ex
      else unknownClass)"

text \<open>
  The sampled class values in the words of the specification: the trimmed, non-empty
  texts of the class column over the first 300 rows.
\<close>

definition sampledClasses :: "jstr \<Rightarrow> row list \<Rightarrow> jstr set" where
  "sampledClasses col rs =
     {v. v \<noteq> [] \<and> (\<exists>r \<in> set (take 300 rs). v = trim (toStr (rget r col)))}"

section \<open>Numbers\<close>

text \<open>
  A JavaScript number is an IEEE 754 double. A finite double is modelled by its exact
  value, a rational, and each arithmetic operation of the source by the exact operation
  followed by rounding to the nearest double, ties to even: \<open>fl x\<close> scales \<open>x\<close> by the
  power of two that leaves 53 significant bits (never below \<open>2^-1074\<close>, the spacing of
  the subnormal numbers), rounds to the nearest integer and scales back. The scores and
  ratios of the engine stay far below \<open>2^1024\<close>, so no operation overflows.
\<close>

definition roundHalfEven :: "rat \<Rightarrow> int" where
  "roundHalfEven y =
     (let f = \<lfloor>y\<rfloor>; d = y - of_int f in
      if d < 1 / 2 then f else if d > 1 / 2 then f + 1
      else if even f then f else f + 1)"

text \<open>The exponent of a positive number: \<open>2 ^ expo x \<le> x < 2 ^ (expo x + 1)\<close>.\<close>

definition expo :: "rat \<Rightarrow> int" where
  "expo x = (if x \<ge> 1 then bitlen \<lfloor>x\<rfloor> - 1 else - bitlen (\<lceil>1 / x\<rceil> - 1))"

definition pow2 :: "int \<Rightarrow> rat" where
  "pow2 e = (if e \<ge> 0 then 2 ^ nat e else 1 / 2 ^ nat (- e))"

definition fl :: "rat \<Rightarrow> rat" where
  "fl x = (if x = 0 then 0
           else (let a = \<bar>x\<bar>; u = pow2 (max (expo a - 52) (- 1074))
                 in sgn x * of_int (roundHalfEven (a / u)) * u))"

text \<open>The operators \<open>+\<close>, \<open>-\<close>, \<open>*\<close> and \<open>/\<close> on doubles.\<close>

definition dadd :: "rat \<Rightarrow> rat \<Rightarrow> rat" where
  "dadd a b = fl (a + b)"

definition dsub :: "rat \<Rightarrow> rat \<Rightarrow> rat" where
  "dsub a b = fl (a - b)"

definition dmul :: "rat \<Rightarrow> rat \<Rightarrow> rat" where
  "dmul a b = fl (a * b)"

definition ddiv :: "rat \<Rightarrow> rat \<Rightarrow> rat" where
  "ddiv a b = fl (a / b)"

section \<open>Header normalisation and value parsing\<close>

text \<open>
  \<open>toLowerCase\<close> on code units: the ASCII, Latin-1, basic Cyrillic and full-width
  capital letters, the Kelvin, Angstrom and Ohm signs, and the dotted capital I, which
  becomes two code units. Capital letters of other scripts are left as they are in the
  model; none of them occurs in a keyword of the engine.
\<close>

definition lowerUnit :: "nat \<Rightarrow> jstr" where
  "lowerUnit c =
     (if (65 \<le> c \<and> c \<le> 90) \<or> (0xC0 \<le> c \<and> c \<le> 0xDE \<and> c \<noteq> 0xD7) \<or>
         (0x410 \<le> c \<and> c \<le> 0x42F) \<or> (0xFF21 \<le> c \<and> c \<le> 0xFF3A) then [c + 32]
      else if 0x400 \<le> c \<and> c \<le> 0x40F then [c + 80]
      else if c = 0x130 then [0x69, 0x307]
      else if c = 0x212A then [0x6B]
      else if c = 0x212B then [0xE5]
      else if c = 0x2126 then [0x3C9]
      else [c])"

definition toLowerCase :: "jstr \<Rightarrow> jstr" where
  "toLowerCase s = concat (map lowerUnit s)"

definition is_letter :: "nat \<Rightarrow> bool" where
  "is_letter c = ((65 \<le> c \<and> c \<le> 90) \<or> (97 \<le> c \<and> c \<le> 122))"

definition is_digit :: "nat \<Rightarrow> bool" where
  "is_digit c = (48 \<le> c \<and> c \<le> 57)"

text \<open>
  The first two \<open>replace\<close> calls of \<open>normalizeHeader\<close>: a suffix made of the opening bracket,
  one or more ASCII letters, the character U+5217 ("column") and the closing bracket
  is removed. The run of letters cannot contain the bracket, so the match, when there
  is one, takes the whole run of letters before U+5217.
\<close>

definition stripColSuffix :: "nat \<Rightarrow> nat \<Rightarrow> jstr \<Rightarrow> jstr" where
  "stripColSuffix opn cls s =
     (case rev s of
        c1 # c2 # rest \<Rightarrow>
          if c1 = cls \<and> c2 = 0x5217 then
            (let ls = takeWhile is_letter rest; pre = dropWhile is_letter rest in
             if ls \<noteq> [] \<and> pre \<noteq> [] \<and> hd pre = opn then rev (tl pre) else s)
          else s
      | _ \<Rightarrow> s)"

definition normalizeHeader :: "jstr \<Rightarrow> jstr" where
  "normalizeHeader s =
     toLowerCase
       (map (\<lambda>c. if c = 0xFF08 then 40 else if c = 0xFF09 then 41 else c)
         (filter (\<lambda>c. \<not> is_ws c)
           (stripColSuffix 40 41 (stripColSuffix 0xFF08 0xFF09 (trim s)))))"

text \<open>
  \<open>Number(cleaned)\<close> on a string of digits, dots and minus signs: an optional minus,
  then digits with an optional fraction, or a dot with digits; anything else is \<open>NaN\<close>
  (\<open>None\<close>). The decimal value is rounded to the nearest double; a magnitude that
  rounds to \<open>Infinity\<close> is not finite and gives \<open>None\<close> as well.
\<close>

definition digitsVal :: "jstr \<Rightarrow> nat" where
  "digitsVal ds = foldl (\<lambda>a d. 10 * a + (d - 48)) 0 ds"

definition finiteNum :: "rat \<Rightarrow> rat option" where
  "finiteNum v = (if \<bar>v\<bar> \<ge> 2 ^ 1024 - 2 ^ 970 then None else Some (fl v))"

definition parseNumber :: "jstr \<Rightarrow> rat option" where
  "parseNumber cl =
     (let neg = (cl \<noteq> [] \<and> hd cl = 45);
          body = (if neg then tl cl else cl);
          ip = takeWhile is_digit body;
          rest = dropWhile is_digit body;
          sgn = (if neg then - 1 else 1)
      in case rest of
           [] \<Rightarrow> if ip = [] then None else finiteNum (sgn * of_nat (digitsVal ip))
         | d # fp \<Rightarrow>
             if d = 46 \<and> list_all is_digit fp \<and> (ip \<noteq> [] \<or> fp \<noteq> [])
             then finiteNum (sgn * (of_nat (digitsVal ip) + of_nat (digitsVal fp) / 10 ^ length fp))
             else None)"

fun toNumber :: "cell \<Rightarrow> rat option" where
  "toNumber CNull = None"
| "toNumber (CNum n) = Some (of_int n)"
| "toNumber (CStr s) =
     (let t = trim s in
      if t = [] then None
      else (let cleaned = filter (\<lambda>c. is_digit c \<or> c = 46 \<or> c = 45) t in
            if cleaned = [] then None else parseNumber cleaned))"

text \<open>The regular expression \<open>^[U+4E00-U+9FA5]{2,5}$\<close> on the trimmed text.\<close>

definition isLikelyChineseName :: "jstr \<Rightarrow> bool" where
  "isLikelyChineseName v =
     (let s = trim v in
      2 \<le> length s \<and> length s \<le> 5 \<and> list_all (\<lambda>c. 0x4E00 \<le> c \<and> c \<le> 0x9FA5) s)"

definition makeExamId :: "jstr \<Rightarrow> jstr \<Rightarrow> jstr" where
  "makeExamId fName sName = fName @ [58, 58] @ sName"

text \<open>The cell of a row under a key as the trimmed text \<open>String(r[k] ?? "").trim()\<close>.\<close>

definition cellText :: "row \<Rightarrow> jstr \<Rightarrow> jstr" where
  "cellText r k = trim (toStr (rget r k))"

section \<open>Column guessing\<close>

text \<open>
  The header reads as a name column: it contains U+59D3 U+540D ("full name") or
  U+540D U+5B57 ("given name").
\<close>

definition isNameHeader :: "jstr \<Rightarrow> bool" where
  "isNameHeader h = (str_includes h [0x59D3, 0x540D] \<or> str_includes h [0x540D, 0x5B57])"

definition findAllNameCols :: "ParsedColumn list \<Rightarrow> jstr list" where
  "findAllNameCols cs = map key (filter (\<lambda>c. isNameHeader (normalizeHeader (label c))) cs)"

text \<open>
  The keys of \<open>guessIdCol\<close>: "student id" written U+5B66 U+751F id, "student number"
  U+5B66 U+53F7, \<open>studentid\<close>, \<open>student_id\<close> and \<open>id\<close>.
\<close>

definition idKeys :: "jstr list" where
  "idKeys = [[0x5B66, 0x751F, 105, 100], [0x5B66, 0x53F7],
             [115, 116, 117, 100, 101, 110, 116, 105, 100],
             [115, 116, 117, 100, 101, 110, 116, 95, 105, 100], [105, 100]]"

definition guessIdCol :: "ParsedColumn list \<Rightarrow> jstr" where
  "guessIdCol cs =
     (case find (\<lambda>c. list_ex (\<lambda>k. str_includes (normalizeHeader (label c)) k) idKeys) cs of
        None \<Rightarrow> [] | Some c \<Rightarrow> key c)"

text \<open>
  \<open>guessClassCol\<close>. The exact class headers: U+73ED U+7EA7 ("class") and its variants;
  the rank words that exclude a header: "ranking", "position", \<open>rank\<close>, and the
  class, grade and school rank abbreviations.
\<close>

definition classIncludeExact :: "jstr list" where
  "classIncludeExact = [[0x73ED, 0x7EA7], [0x73ED, 0x7EA7, 0x53F7], [0x884C, 0x653F, 0x73ED],
                        [0x73ED, 0x53F7], [0x73ED, 0x522B], [0x73ED, 0x7EA7, 0x7F16, 0x53F7]]"

definition classExclude :: "jstr list" where
  "classExclude = [[0x6392, 0x540D], [0x540D, 0x6B21], [114, 97, 110, 107],
                   [0x73ED, 0x7EA7, 0x6392], [0x5E74, 0x7EA7, 0x6392], [0x73ED, 0x6392],
                   [0x5E74, 0x6392], [0x6821, 0x6392], [0x7EA7, 0x6392]]"

text \<open>
  "Rank" U+6392 together with a scope word: class U+73ED, year U+5E74, school U+6821
  or grade U+7EA7.
\<close>

definition rankWithScope :: "jstr \<Rightarrow> bool" where
  "rankWithScope h =
     (str_includes h [0x6392] \<and>
      (str_includes h [0x73ED] \<or> str_includes h [0x5E74] \<or>
       str_includes h [0x6821] \<or> str_includes h [0x7EA7]))"

definition classRankLike :: "jstr \<Rightarrow> bool" where
  "classRankLike h = (list_ex (\<lambda>k. str_includes h k) classExclude \<or> rankWithScope h)"

definition guessClassCol :: "ParsedColumn list \<Rightarrow> jstr" where
  "guessClassCol cs =
     (case find (\<lambda>c. let h = normalizeHeader (label c) in
                      \<not> classRankLike h \<and> h \<in> set classIncludeExact) cs of
        Some c \<Rightarrow> key c
      | None \<Rightarrow>
          (case find (\<lambda>c. let h = normalizeHeader (label c) in
                           \<not> classRankLike h \<and>
                           (str_includes h [0x73ED, 0x7EA7, 0x53F7] \<or>
                            str_includes h [0x884C, 0x653F, 0x73ED] \<or>
                            str_includes h [0x73ED, 0x53F7] \<or>
                            h = [0x73ED, 0x7EA7] \<or> str_includes h [0x73ED, 0x7EA7])) cs of
             Some c \<Rightarrow> key c
           | None \<Rightarrow> []))"

text \<open>
  Scores are doubles: every quotient, product and sum that the source computes on them
  is rounded (\<open>ddiv\<close>, \<open>dmul\<close>, \<open>dadd\<close>, \<open>dsub\<close>). The sums of the integer
  bonuses 20, 6 and -50 alone are exact.
\<close>

text \<open>
  The body of the column loops of \<open>guessNameCol\<close> and \<open>guessTotalCol\<close>:
  \<open>if (score > bestScore) { bestScore = score; best = c.key; }\<close>.
\<close>

definition keepBest :: "(ParsedColumn \<Rightarrow> rat) \<Rightarrow> jstr \<times> rat \<Rightarrow> ParsedColumn \<Rightarrow> jstr \<times> rat" where
  "keepBest f st c =
     (case st of (best, bestScore) \<Rightarrow>
        (let score = f c in if score > bestScore then (key c, score) else (best, bestScore)))"

text \<open>The score \<open>guessNameCol\<close> gives a column over \<open>rows.slice(0, 450)\<close>.\<close>

definition nameScore :: "row list \<Rightarrow> ParsedColumn \<Rightarrow> rat" where
  "nameScore rs c =
     (let h = normalizeHeader (label c);
          vals = filter (\<lambda>s. s \<noteq> []) (map (\<lambda>r. cellText r (key c)) (take 450 rs));
          seen = length vals;
          hit = length (filter isLikelyChineseName vals);
          score0 = (if isNameHeader h then 6 else 0)
      in if seen \<noteq> 0 then dadd score0 (dmul (ddiv (of_nat hit) (of_nat seen)) 10)
         else score0)"

definition guessNameCol :: "row list \<Rightarrow> ParsedColumn list \<Rightarrow> jstr" where
  "guessNameCol rs cs =
     (let best0 = (case find (\<lambda>c. isNameHeader (normalizeHeader (label c))) cs of
                     Some c \<Rightarrow> key c
                   | None \<Rightarrow> (case cs of [] \<Rightarrow> [] | c # _ \<Rightarrow> key c))
      in fst (foldl (keepBest (nameScore rs)) (best0, - 1) cs))"

text \<open>
  \<open>scoreTotal\<close>, the local function of \<open>guessTotalCol\<close>. The good headers all contain
  the first of them, U+603B U+5206 ("total score"), with the suffixes "score", "raw
  score" and "raw", joined directly or by an underscore.
\<close>

definition totalGood :: "jstr list" where
  "totalGood = [[0x603B, 0x5206],
                [0x603B, 0x5206, 0x5F97, 0x5206], [0x603B, 0x5206, 95, 0x5F97, 0x5206],
                [0x603B, 0x5206, 0x539F, 0x59CB, 0x5206], [0x603B, 0x5206, 95, 0x539F, 0x59CB, 0x5206],
                [0x603B, 0x5206, 0x539F, 0x59CB], [0x603B, 0x5206, 95, 0x539F, 0x59CB]]"

text \<open>
  \<open>isRankLike\<close> of \<open>scoreTotal\<close>: the header contains "ranking" U+6392 U+540D,
  "position" U+540D U+6B21, "class rank" U+73ED U+7EA7 U+6392, "grade rank"
  U+5E74 U+7EA7 U+6392, or U+6392 with a scope word.
\<close>

definition isRankLike :: "jstr \<Rightarrow> bool" where
  "isRankLike h =
     (str_includes h [0x6392, 0x540D] \<or> str_includes h [0x540D, 0x6B21] \<or>
      str_includes h [0x73ED, 0x7EA7, 0x6392] \<or> str_includes h [0x5E74, 0x7EA7, 0x6392] \<or>
      rankWithScope h)"

text \<open>
  \<open>isMetaLike\<close> of \<open>scoreTotal\<close>: the header is "class" U+73ED U+7EA7, or contains
  "class number", "administrative class" or "class no.", or contains "exam number"
  U+8003 U+53F7 or "admission ticket" U+51C6 U+8003 U+8BC1, or is "full name"
  U+59D3 U+540D, or contains "given name" U+540D U+5B57.
\<close>

definition isMetaLike :: "jstr \<Rightarrow> bool" where
  "isMetaLike h =
     (h = [0x73ED, 0x7EA7] \<or> str_includes h [0x73ED, 0x7EA7, 0x53F7] \<or>
      str_includes h [0x884C, 0x653F, 0x73ED] \<or> str_includes h [0x73ED, 0x53F7] \<or>
      str_includes h [0x8003, 0x53F7] \<or> str_includes h [0x51C6, 0x8003, 0x8BC1] \<or>
      h = [0x59D3, 0x540D] \<or> str_includes h [0x540D, 0x5B57])"

text \<open>A cell that the value loop of \<open>scoreTotal\<close> skips: \<open>null\<close>, \<open>undefined\<close> or blank.\<close>

definition blankCell :: "cell \<Rightarrow> bool" where
  "blankCell v = (v = CNull \<or> trim (toStr v) = [])"

definition scoreTotal :: "row list \<Rightarrow> ParsedColumn \<Rightarrow> rat" where
  "scoreTotal rs c =
     (let h = normalizeHeader (label c);
          score0 = (if list_ex (\<lambda>g. str_includes h g) totalGood then 20 else 0)
      in if isRankLike h then - 9999
         else if isMetaLike h then - 9999
         else
           (let score1 = (if str_includes h [0x8D4B, 0x5206] then score0 - 50 else score0);
                vals = filter (\<lambda>v. \<not> blankCell v) (map (\<lambda>r. rget r (key c)) (take 450 rs));
                seen = length vals;
                nums = map the (filter (\<lambda>n. n \<noteq> None) (map toNumber vals));
                numeric = length nums;
                inRange = length (filter (\<lambda>n. 0 \<le> n \<and> n \<le> 1200) nums);
                veryLarge = length (filter (\<lambda>n. n \<ge> 100000) nums)
            in if seen > 0
               then dsub (dadd (dadd score1 (dmul (ddiv (of_nat numeric) (of_nat seen)) 5))
                                (dmul (ddiv (of_nat inRange) (of_nat seen)) 30))
                          (dmul (ddiv (of_nat veryLarge) (of_nat seen)) 200)
               else score1 - 50))"

definition guessTotalCol :: "row list \<Rightarrow> ParsedColumn list \<Rightarrow> jstr" where
  "guessTotalCol rs cs =
     (let (best, bestScore) = foldl (keepBest (scoreTotal rs)) ([], - (10 ^ 9)) cs
      in if bestScore < 10 then [] else best)"

definition hasAnyNonEmpty :: "row list \<Rightarrow> jstr \<Rightarrow> bool" where
  "hasAnyNonEmpty rs colKey =
     (if colKey = [] then False
      else list_ex (\<lambda>r. cellText r colKey \<noteq> []) (take 400 rs))"

section \<open>Importing one sheet\<close>

text \<open>
  The check of \<open>importFiles\<close> on the class column it selected: over the first
  \<open>min(300, rows.length)\<close> rows, only the rows with a name are counted; with at least
  10 of them and a ratio below the double 0.1, \<open>fixedClassCol\<close> becomes empty.
\<close>

definition fixedClassCol :: "row list \<Rightarrow> jstr \<Rightarrow> jstr \<Rightarrow> jstr" where
  "fixedClassCol rs nameC classC =
     (if classC \<noteq> [] then
        (let named = filter (\<lambda>r. (if nameC \<noteq> [] then cellText r nameC else []) \<noteq> [])
                            (take (min 300 (length rs)) rs);
             seen = length named;
             nonEmpty = length (filter (\<lambda>r. cellText r classC \<noteq> []) named);
             ratio = (if seen \<noteq> 0 then ddiv (of_nat nonEmpty) (of_nat seen) else 0)
         in if seen \<ge> 10 \<and> ratio < fl (1 / 10) then [] else classC)
      else classC)"

text \<open>The warning of \<open>importFiles\<close> on a total column whose values are mostly at most 20.\<close>

definition totalWarnings :: "row list \<Rightarrow> jstr \<Rightarrow> warning list" where
  "totalWarnings rs totalC =
     (if totalC \<noteq> [] then
        (let nums = map the (filter (\<lambda>n. n \<noteq> None) (map (\<lambda>r. toNumber (rget r totalC)) (take 300 rs)));
             seen = length nums;
             tiny = length (filter (\<lambda>n. 0 \<le> n \<and> n \<le> 20) nums)
         in if seen \<ge> 10 \<and> ddiv (of_nat tiny) (of_nat seen) \<ge> fl (7 / 10)
            then [TotalSuspicious] else [])
      else [])"

text \<open>
  The body of the sheet loop of \<open>importFiles\<close>, from the chosen block (its id, columns
  and rows) to the record pushed on the result list. \<open>metricCols\<close>, \<open>blocks\<close> and
  \<open>scope\<close> are left out of the record: no property below reads them.
\<close>

definition importSheet ::
  "jstr \<Rightarrow> jstr \<Rightarrow> jstr \<Rightarrow> ParsedColumn list \<Rightarrow> row list \<Rightarrow> ExamConfig" where
  "importSheet fName sName bId cs rs =
     (let idC = guessIdCol cs;
          classC0 = guessClassCol cs;
          classC = (if classC0 \<noteq> [] \<and> \<not> hasAnyNonEmpty rs classC0 then [] else classC0);
          nameCols = findAllNameCols cs;
          fatal1 = (if length nameCols \<ge> 2 then [MultipleNameCols (length nameCols)] else []);
          nameC = (if nameCols \<noteq> [] \<and> hd nameCols \<noteq> [] then hd nameCols
                   else guessNameCol rs cs);
          fatal2 = (if nameC = [] then [NoNameCol] else []);
          fixedC = fixedClassCol rs nameC classC;
          totalC = guessTotalCol rs cs
      in \<lparr> examId = makeExamId fName sName, fileName = fName, sheetName = sName, examName = sName, blockId = bId,
           cols = cs, rows = rs,
           idCol = idC, nameCol = nameC, classCol = classC, totalCol = totalC,
           inferredClass = [], overrideClass = [],
           fatalErrors = fatal1 @ fatal2, warnings = totalWarnings rs totalC \<rparr>)"

section \<open>Class inference\<close>

text \<open>
  \<open>ClassInferenceResult\<close>. The map \<open>nameToClasses\<close> is a \<open>Map<string, Set<string>>\<close>;
  a set is the list of its elements in insertion order, which is the order in which
  JavaScript iterates it.
\<close>

record ClassInferenceResult =
  classSet :: "jstr list"
  nameToClasses :: "jstr \<Rightarrow> jstr list option"

definition hasClassData :: "ExamConfig \<Rightarrow> bool" where
  "hasClassData ex =
     (if classCol ex = [] then False
      else list_ex (\<lambda>r. cellText r (classCol ex) \<noteq> []) (take 300 (rows ex)))"

text \<open>
  The sampling loop of \<open>inferSheetClass\<close>: each non-empty trimmed name is pushed, and the
  loop breaks when \<open>N = 6\<close> names are there.
\<close>

fun sampleLoop :: "jstr \<Rightarrow> row list \<Rightarrow> jstr list \<Rightarrow> jstr list" where
  "sampleLoop col [] names = names"
| "sampleLoop col (r # rs) names =
     (let n = cellText r col in
      if n = [] then sampleLoop col rs names
      else (let names' = names @ [n] in
            if length names' \<ge> 6 then names' else sampleLoop col rs names'))"

definition sampleNames :: "ExamConfig \<Rightarrow> jstr list" where
  "sampleNames ex = sampleLoop (nameCol ex) (rows ex) []"

text \<open>
  The vote is a \<open>Map<string, number>\<close>, an association list in insertion order:
  \<open>vote.set(c, (vote.get(c) ?? 0) + 1)\<close> updates an entry in place or appends one.
\<close>

definition voteAdd :: "(jstr \<times> nat) list \<Rightarrow> jstr \<Rightarrow> (jstr \<times> nat) list" where
  "voteAdd vote c =
     (if c \<in> fst ` set vote then map (\<lambda>(k, v). if k = c then (k, v + 1) else (k, v)) vote
      else vote @ [(c, 1)])"

definition tallyStep ::
  "ClassInferenceResult \<Rightarrow> (jstr \<times> nat) list \<times> nat \<Rightarrow> jstr \<Rightarrow> (jstr \<times> nat) list \<times> nat" where
  "tallyStep idx st n =
     (case st of (vote, hit) \<Rightarrow>
        (case nameToClasses idx n of
           None \<Rightarrow> (vote, hit)
         | Some classes \<Rightarrow>
             if classes = [] then (vote, hit)
             else (foldl voteAdd vote classes, hit + 1)))"

text \<open>\<open>vote.get(c) ?? 0\<close>.\<close>

definition voteGet :: "(jstr \<times> nat) list \<Rightarrow> jstr \<Rightarrow> nat" where
  "voteGet vote c = (case map_of vote c of None \<Rightarrow> 0 | Some v \<Rightarrow> v)"

text \<open>The loop over the entries of the vote, from \<open>bestC = ""\<close> and \<open>bestV = -1\<close>.\<close>

definition bestVote :: "(jstr \<times> nat) list \<Rightarrow> jstr \<times> int" where
  "bestVote vote =
     foldl (\<lambda>(bestC, bestV) (c, v). if int v > bestV then (c, int v) else (bestC, bestV))
           ([], - 1) vote"

text \<open>
  \<open>inferSheetClass\<close>. The ratio is the rounded quotient of two counts, compared with
  the doubles 0.85 and 0.7.
\<close>

definition inferSheetClass :: "ExamConfig \<Rightarrow> ClassInferenceResult \<Rightarrow> jstr" where
  "inferSheetClass ex idx =
     (if hasClassData ex then inferredClass ex
      else if nameCol ex = [] then unknownClass
      else
        (let names = sampleNames ex in
         if length names < 3 then unknownClass
         else
           (let (vote, hit) = foldl (tallyStep idx) ([], 0) names in
            if hit < 3 \<or> vote = [] then unknownClass
            else
              (let (bestC, bestV) = bestVote vote;
                   ratio = ddiv (of_int bestV) (of_nat hit)
               in if length (rows ex) \<ge> 150 \<and> ratio < fl (85 / 100) then schoolWide
                  else if ratio \<ge> fl (7 / 10) then bestC
                  else unknownClass))))"

text \<open>
  The counts of \<open>inferSheetClass\<close> over the entries of the sample, which is not
  deduplicated: the classes known for a name, the number of entries with a known class
  (\<open>hit\<close>) and the number of entries with a given class among theirs (the vote for that
  class). A name that the sample repeats is counted once per occurrence.
\<close>

definition knownClasses :: "ClassInferenceResult \<Rightarrow> jstr \<Rightarrow> jstr list" where
  "knownClasses idx n = (case nameToClasses idx n of None \<Rightarrow> [] | Some classes \<Rightarrow> classes)"

definition contributors :: "ClassInferenceResult \<Rightarrow> jstr list \<Rightarrow> nat" where
  "contributors idx names = length (filter (\<lambda>n. knownClasses idx n \<noteq> []) names)"

definition votesFor :: "ClassInferenceResult \<Rightarrow> jstr list \<Rightarrow> jstr \<Rightarrow> nat" where
  "votesFor idx names c = length (filter (\<lambda>n. c \<in> set (knownClasses idx n)) names)"

text \<open>
  The names that contributed, in the words of the specification: the distinct names of
  the sample with at least one known class.
\<close>

definition contributingNames :: "ClassInferenceResult \<Rightarrow> jstr list \<Rightarrow> nat" where
  "contributingNames idx names = length (remdups (filter (\<lambda>n. knownClasses idx n \<noteq> []) names))"

section \<open>Reading a sheet: merged cells and the header row\<close>

text \<open>
  The matrix of a sheet is an array of rows, each an array of cells. Reading outside a
  JavaScript array gives \<open>undefined\<close>, and writing at an index beyond the end extends
  the array with holes, which read as \<open>undefined\<close>.
\<close>

type_synonym matrix = "cell list list"

definition cellAt :: "cell list \<Rightarrow> nat \<Rightarrow> cell" where
  "cellAt row c = (if c < length row then row ! c else CNull)"

definition setCell :: "cell list \<Rightarrow> nat \<Rightarrow> cell \<Rightarrow> cell list" where
  "setCell row c v =
     (if c < length row then row[c := v] else row @ replicate (c - length row) CNull @ [v])"

text \<open>\<open>matrix[r] ?? []\<close> and \<open>matrix[r] = row\<close>.\<close>

definition getRow :: "matrix \<Rightarrow> nat \<Rightarrow> cell list" where
  "getRow m r = (if r < length m then m ! r else [])"

definition setRow :: "matrix \<Rightarrow> nat \<Rightarrow> cell list \<Rightarrow> matrix" where
  "setRow m r row =
     (if r < length m then m[r := row] else m @ replicate (r - length m) [] @ [row])"

text \<open>The cell of a matrix at a row and a column, \<open>undefined\<close> outside the matrix.\<close>

definition matrixCell :: "matrix \<Rightarrow> nat \<Rightarrow> nat \<Rightarrow> cell" where
  "matrixCell m r c = cellAt (getRow m r) c"

definition isEmptyCell :: "cell \<Rightarrow> bool" where
  "isEmptyCell v = (v = CNull \<or> trim (toStr v) = [])"

text \<open>
  A merge range (\<open>XLSX.Range\<close>, with \<open>s\<close> the top-left and \<open>e\<close> the bottom-right cell)
  and a worksheet: the value \<open>v\<close> of the cell object at each address that has one, and
  the list \<open>!merges\<close>.
\<close>

record Range =
  s_r :: nat
  s_c :: nat
  e_r :: nat
  e_c :: nat

record WorkSheet =
  cells :: "nat \<times> nat \<Rightarrow> cell option"
  merges :: "Range list"

definition getCellValueMerged :: "WorkSheet \<Rightarrow> nat \<Rightarrow> nat \<Rightarrow> cell" where
  "getCellValueMerged sheet r0 c0 =
     (let viaMerge =
            (case find (\<lambda>m. s_r m \<le> r0 \<and> r0 \<le> e_r m \<and> s_c m \<le> c0 \<and> c0 \<le> e_c m)
                       (merges sheet) of
               Some m \<Rightarrow> (case cells sheet (s_r m, s_c m) of Some v \<Rightarrow> v | None \<Rightarrow> CNull)
             | None \<Rightarrow> CNull)
      in case cells sheet (r0, c0) of
           Some v \<Rightarrow> if \<not> isEmptyCell v then v else viaMerge
         | None \<Rightarrow> viaMerge)"

text \<open>The two inner loops of \<open>applyMergesToMatrix\<close>: only an empty cell is filled.\<close>

definition fillCell :: "cell \<Rightarrow> cell list \<Rightarrow> nat \<Rightarrow> cell list" where
  "fillCell tlv row c = (if isEmptyCell (cellAt row c) then setCell row c tlv else row)"

definition fillRow :: "cell \<Rightarrow> nat \<Rightarrow> nat \<Rightarrow> matrix \<Rightarrow> nat \<Rightarrow> matrix" where
  "fillRow tlv sc ec m r = setRow m r (foldl (fillCell tlv) (getRow m r) [sc ..< Suc ec])"

definition applyMerge :: "WorkSheet \<Rightarrow> nat \<Rightarrow> matrix \<Rightarrow> Range \<Rightarrow> matrix" where
  "applyMerge ws maxRows m rg =
     (if s_r rg \<ge> maxRows then m
      else (let tlv = getCellValueMerged ws (s_r rg) (s_c rg) in
            if isEmptyCell tlv then m
            else (let rEnd = min (e_r rg) (maxRows - 1) in
                  foldl (fillRow tlv (s_c rg) (e_c rg)) m [s_r rg ..< Suc rEnd])))"

definition applyMergesToMatrix :: "WorkSheet \<Rightarrow> matrix \<Rightarrow> nat \<Rightarrow> matrix" where
  "applyMergesToMatrix ws m maxRows =
     (if merges ws = [] then m
      else foldl (applyMerge ws maxRows) (m @ replicate (maxRows - length m) []) (merges ws))"

text \<open>
  The keywords of the regular expression of \<open>detectHeaderStartRow\<close>, all of them CJK
  words (name, given name, student number, exam number, school roll, class, total,
  sum, grand total, score, ranking, position, deduction, raw score, scaled score and
  nine subjects), so that the flag \<open>i\<close> changes nothing.
\<close>

definition headerKeywords :: "jstr list" where
  "headerKeywords =
     [[0x59D3, 0x540D], [0x540D, 0x5B57], [0x5B66, 0x53F7], [0x8003, 0x53F7], [0x5B66, 0x7C4D],
      [0x73ED, 0x7EA7], [0x603B, 0x5206], [0x5408, 0x8BA1], [0x603B, 0x8BA1], [0x5206, 0x6570],
      [0x6392, 0x540D], [0x540D, 0x6B21], [0x6263, 0x5206], [0x539F, 0x59CB, 0x5206],
      [0x8D4B, 0x5206], [0x8BED, 0x6587], [0x6570, 0x5B66], [0x82F1, 0x8BED], [0x7269, 0x7406],
      [0x5316, 0x5B66], [0x751F, 0x7269], [0x653F, 0x6CBB], [0x5386, 0x53F2], [0x5730, 0x7406]]"

text \<open>\<open>row.map((v) => String(v ?? "")).join("|")\<close>.\<close>

fun joinBar :: "jstr list \<Rightarrow> jstr" where
  "joinBar [] = []"
| "joinBar [s] = s"
| "joinBar (s # t # ss) = s @ [124] @ joinBar (t # ss)"

definition hasKeyword :: "cell list \<Rightarrow> bool" where
  "hasKeyword row = list_ex (\<lambda>k. str_includes (joinBar (map toStr row)) k) headerKeywords"

definition nonEmptyCount :: "cell list \<Rightarrow> nat" where
  "nonEmptyCount row = length (filter (\<lambda>v. trim (toStr v) \<noteq> []) row)"

definition looksLikeTitle :: "cell list \<Rightarrow> bool" where
  "looksLikeTitle row =
     (let nonEmptyCells = filter (\<lambda>v. trim (toStr v) \<noteq> []) row in
      length nonEmptyCells = 1 \<and> length (trim (toStr (hd nonEmptyCells))) \<ge> 6)"

text \<open>The body of the row loop of \<open>detectHeaderStartRow\<close>.\<close>

definition headerStep :: "matrix \<Rightarrow> nat \<times> int \<Rightarrow> nat \<Rightarrow> nat \<times> int" where
  "headerStep m st r =
     (case st of (bestRow, bestScore) \<Rightarrow>
        (let row = getRow m r; ne = nonEmptyCount row in
         if looksLikeTitle row then (bestRow, bestScore)
         else (let score = int ne + (if hasKeyword row then 12 else 0) in
               if ne < 3 \<and> \<not> hasKeyword row then (bestRow, bestScore)
               else if score > bestScore then (r, score)
               else (bestRow, bestScore))))"

definition detectHeaderStartRow :: "matrix \<Rightarrow> nat" where
  "detectHeaderStartRow m = fst (foldl (headerStep m) (0, - 1) [0 ..< min 18 (length m)])"

text \<open>
  \<open>norm\<close> of the sheet parser (named \<open>norm_hdr\<close> here, \<open>norm\<close> being taken): trim, drop
  all white space, turn full-width brackets into ASCII ones, lower-case.
\<close>

definition norm_hdr :: "jstr \<Rightarrow> jstr" where
  "norm_hdr s =
     toLowerCase
       (map (\<lambda>c. if c = 0xFF08 then 40 else if c = 0xFF09 then 41 else c)
         (filter (\<lambda>c. \<not> is_ws c) (trim s)))"

text \<open>The loop of \<open>colLetter\<close>, which writes a column index in letters.\<close>

function colLetterLoop :: "nat \<Rightarrow> jstr \<Rightarrow> jstr" where
  "colLetterLoop x s =
     (if x > 0 then colLetterLoop ((x - 1) div 26) ((65 + (x - 1) mod 26) # s) else s)"
  by pat_completeness auto
termination
  by (relation "measure (\<lambda>(x, s). x)") (auto simp: div_le_dividend le_imp_less_Suc)

declare colLetterLoop.simps [simp del]

definition colLetter :: "nat \<Rightarrow> jstr" where
  "colLetter n = colLetterLoop (n + 1) []"

text \<open>
  \<open>makeUniqueColumns\<close>: one column per index from \<open>start\<close> to \<open>end\<close>. The key is the
  normalised header, or \<open>col\<close> when that is empty, followed by two underscores and the
  index in decimal; the label is the header followed by the column letter and U+5217
  in full-width brackets. A header index outside \<open>headers\<close> reads \<open>undefined\<close>.
\<close>

definition makeUniqueColumns :: "jstr list \<Rightarrow> nat \<Rightarrow> nat \<Rightarrow> ParsedColumn list" where
  "makeUniqueColumns headers start stop =
     map (\<lambda>c.
            let base = (if c < length headers then Some (headers ! c) else None);
                keyBase = (let n = norm_hdr (case base of Some b \<Rightarrow> b | None \<Rightarrow> []) in
                           if n \<noteq> [] then n else [99, 111, 108])
            in \<lparr> key = keyBase @ [95, 95] @ digits_of c,
                 label = (case base of Some b \<Rightarrow> b
                          | None \<Rightarrow> [117, 110, 100, 101, 102, 105, 110, 101, 100])
                         @ [0xFF08] @ colLetter c @ [0x5217, 0xFF09],
                 colIndex = c \<rparr>)
         [start ..< Suc stop]"

text \<open>\<open>isSeparatorCol\<close>: the column is empty in the first \<open>topRows\<close> rows.\<close>

definition isSeparatorCol :: "matrix \<Rightarrow> nat \<Rightarrow> nat \<Rightarrow> bool" where
  "isSeparatorCol m col topRows =
     list_all (\<lambda>r. isEmptyCell (matrixCell m r col)) [0 ..< min topRows (length m)]"

text \<open>
  The loops of \<open>splitBlocks\<close>: the inner one skips a run of separator columns, the
  outer one closes a range before each run and starts the next after it.
\<close>

function skipCuts :: "nat list \<Rightarrow> nat \<Rightarrow> nat \<Rightarrow> nat" where
  "skipCuts cuts W c = (if c < W \<and> c \<in> set cuts then skipCuts cuts W (Suc c) else c)"
  by pat_completeness auto
termination
  by (relation "measure (\<lambda>(cuts, W, c). W - c)") auto

declare skipCuts.simps [simp del]

function splitLoop ::
  "nat list \<Rightarrow> nat \<Rightarrow> nat \<Rightarrow> nat \<Rightarrow> (nat \<times> nat) list \<Rightarrow> nat \<times> (nat \<times> nat) list" where
  "splitLoop cuts W start c ranges =
     (if c < W then
        (if c \<in> set cuts then
           (let ranges' = (if int c - 1 \<ge> int start then ranges @ [(start, c - 1)] else ranges);
                c' = skipCuts cuts W c
            in splitLoop cuts W c' c' ranges')
         else splitLoop cuts W start (Suc c) ranges)
      else (start, ranges))"
  by pat_completeness auto
termination
proof (relation "measure (\<lambda>(cuts, W, start, c, ranges). W - c)")
  show "wf (measure (\<lambda>(cuts, W, start, c, ranges). W - c))" by simp
next
  fix cuts :: "nat list" and W start c :: nat and ranges x xa :: "(nat \<times> nat) list" and xb :: nat
  assume c: "c < W" "c \<in> set cuts" and xb: "xb = skipCuts cuts W c"
  have ge: "\<And>d. d \<le> skipCuts cuts W d"
  proof -
    fix d show "d \<le> skipCuts cuts W d"
    proof (induction cuts W d rule: skipCuts.induct)
      case (1 cuts W c)
      then show ?case by (subst skipCuts.simps) (auto simp: Suc_leD)
    qed
  qed
  have "skipCuts cuts W c = skipCuts cuts W (Suc c)"
    using c by (subst skipCuts.simps) simp
  with ge [of "Suc c"] have "c < skipCuts cuts W c" by simp
  with c xb show "((cuts, W, xb, xb, xa), (cuts, W, start, c, ranges))
        \<in> measure (\<lambda>(cuts, W, start, c, ranges). W - c)" by simp
next
  fix cuts :: "nat list" and W start c :: nat and ranges :: "(nat \<times> nat) list"
  assume "c < W" "c \<notin> set cuts"
  then show "((cuts, W, start, Suc c, ranges), (cuts, W, start, c, ranges))
        \<in> measure (\<lambda>(cuts, W, start, c, ranges). W - c)" by simp
qed

declare splitLoop.simps [simp del]

text \<open>\<open>splitBlocks\<close>; the ranges narrower than 3 columns are dropped at the end.\<close>

definition splitBlocks :: "matrix \<Rightarrow> jstr list \<Rightarrow> (nat \<times> nat) list" where
  "splitBlocks view headers =
     (let W = length headers;
          cuts = filter (\<lambda>c. isSeparatorCol view c 2) [0 ..< W];
          (start, ranges) = splitLoop cuts W 0 0 [];
          ranges' = (if start < W then ranges @ [(start, W - 1)] else ranges)
      in filter (\<lambda>(s, e). int e - int s + 1 \<ge> 3) ranges')"


text \<open>
  The words of the specification on a row: its score, and whether the locator takes it
  as a candidate (it is not a title row, and it has 3 non-empty cells or a keyword).
\<close>

definition rowScore :: "cell list \<Rightarrow> int" where
  "rowScore row = int (nonEmptyCount row) + (if hasKeyword row then 12 else 0)"

definition rowQualifies :: "cell list \<Rightarrow> bool" where
  "rowQualifies row = (\<not> looksLikeTitle row \<and> (3 \<le> nonEmptyCount row \<or> hasKeyword row))"

text \<open>
  A merge range applies to a cell of the matrix: its top row is below \<open>maxRows\<close>, its
  top-left value is not empty, and the cell is in the range and in a row below
  \<open>maxRows\<close>.
\<close>

definition mergeApplies :: "WorkSheet \<Rightarrow> nat \<Rightarrow> Range \<Rightarrow> nat \<Rightarrow> nat \<Rightarrow> bool" where
  "mergeApplies ws maxRows rg r c =
     (s_r rg < maxRows \<and> \<not> isEmptyCell (getCellValueMerged ws (s_r rg) (s_c rg)) \<and>
      s_r rg \<le> r \<and> r \<le> e_r rg \<and> r < maxRows \<and> s_c rg \<le> c \<and> c \<le> e_c rg)"

section \<open>Example sheets\<close>

text \<open>
  Columns as \<open>makeUniqueColumns\<close> builds them: the key is the normalised header, two
  underscores and the column index; the label is the header followed by the column
  letter in full-width brackets. The headers are "full name" U+59D3 U+540D, "class"
  U+73ED U+7EA7, "total score" U+603B U+5206 and "student number" U+5B66 U+53F7.
\<close>

definition col_name :: ParsedColumn where
  "col_name = \<lparr>key = [0x59D3, 0x540D, 95, 95, 48],
                label = [0x59D3, 0x540D, 0xFF08, 65, 0x5217, 0xFF09], colIndex = 0\<rparr>"

definition col_class :: ParsedColumn where
  "col_class = \<lparr>key = [0x73ED, 0x7EA7, 95, 95, 49],
                 label = [0x73ED, 0x7EA7, 0xFF08, 66, 0x5217, 0xFF09], colIndex = 1\<rparr>"

definition col_total :: ParsedColumn where
  "col_total = \<lparr>key = [0x603B, 0x5206, 95, 95, 50],
                 label = [0x603B, 0x5206, 0xFF08, 67, 0x5217, 0xFF09], colIndex = 2\<rparr>"

definition col_name2 :: ParsedColumn where
  "col_name2 = \<lparr>key = [0x59D3, 0x540D, 95, 95, 49],
                 label = [0x59D3, 0x540D, 0xFF08, 66, 0x5217, 0xFF09], colIndex = 1\<rparr>"

definition col_sid :: ParsedColumn where
  "col_sid = \<lparr>key = [0x5B66, 0x53F7, 95, 95, 48],
               label = [0x5B66, 0x53F7, 0xFF08, 65, 0x5217, 0xFF09], colIndex = 0\<rparr>"

text \<open>
  A sheet with name, class and total columns and eleven rows, every row with a name and
  a total, only the first with a class.
\<close>

definition sheet_cols :: "ParsedColumn list" where
  "sheet_cols = [col_name, col_class, col_total]"

definition sheet_row :: "cell \<Rightarrow> cell \<Rightarrow> cell \<Rightarrow> row" where
  "sheet_row n c t = [key col_name \<mapsto> n, key col_class \<mapsto> c, key col_total \<mapsto> t]"

definition sparse_rows :: "row list" where
  "sparse_rows = sheet_row (CStr [0x5F20, 0x4E09]) (CNum 5) (CNum 500)
      # replicate 10 (sheet_row (CStr [0x674E, 0x56DB]) (CStr []) (CNum 480))"

text \<open>A sheet with two columns headed "full name".\<close>

definition dup_cols :: "ParsedColumn list" where
  "dup_cols = [col_name, col_name2, col_total]"

definition dup_rows :: "row list" where
  "dup_rows = [[key col_name \<mapsto> CStr [0x5F20, 0x4E09], key col_name2 \<mapsto> CStr [0x674E, 0x56DB],
                key col_total \<mapsto> CNum 500]]"

text \<open>
  A sheet with a student-number column, a name column and a total column that is empty
  in every row; the student numbers are small in \<open>small_id_rows\<close> and above 100000 in
  \<open>large_id_rows\<close>.
\<close>

definition id_cols :: "ParsedColumn list" where
  "id_cols = [col_sid, col_name2, col_total]"

definition id_row :: "int \<Rightarrow> jstr \<Rightarrow> row" where
  "id_row i n = [key col_sid \<mapsto> CNum i, key col_name2 \<mapsto> CStr n, key col_total \<mapsto> CStr []]"

definition small_id_rows :: "row list" where
  "small_id_rows = [id_row 1 [0x5F20, 0x4E09], id_row 2 [0x674E, 0x56DB], id_row 3 [0x738B, 0x4E94]]"






text \<open>A record whose class column reads 5 in every row and whose override is \<open>" 3 "\<close>.\<close>

definition ex_override :: ExamConfig where
  "ex_override = \<lparr> examId = [97, 58, 58, 98], fileName = [97], sheetName = [98], examName = [98], blockId = [99],
     cols = [\<lparr>key = [107], label = [0x73ED, 0x7EA7], colIndex = 0\<rparr>],
     rows = [[[107] \<mapsto> CNum 5], [[107] \<mapsto> CStr [32, 53]]],
     idCol = [], nameCol = [], classCol = [107], totalCol = [],
     inferredClass = [], overrideClass = [32, 51, 32],
     fatalErrors = [], warnings = [] \<rparr>"

text \<open>
  A sheet without a class column and with three names, and two class indexes over the
  classes A and B: in the first the names vote 2 to 1, in the second 3 to 0.
\<close>

definition infer_rows :: "row list" where
  "infer_rows = [[key col_name \<mapsto> CStr [0x5F20, 0x4E09]], [key col_name \<mapsto> CStr [0x674E, 0x56DB]],
                 [key col_name \<mapsto> CStr [0x738B, 0x4E94]]]"

definition infer_ex :: ExamConfig where
  "infer_ex = \<lparr> examId = [97, 58, 58, 98], fileName = [97], sheetName = [98], examName = [98],
     blockId = [99], cols = [col_name], rows = infer_rows,
     idCol = [], nameCol = key col_name, classCol = [], totalCol = [],
     inferredClass = [], overrideClass = [], fatalErrors = [], warnings = [] \<rparr>"

definition idx_2_1 :: ClassInferenceResult where
  "idx_2_1 = \<lparr> classSet = [[65], [66]],
     nameToClasses = [[0x5F20, 0x4E09] \<mapsto> [[65]], [0x674E, 0x56DB] \<mapsto> [[65]],
                      [0x738B, 0x4E94] \<mapsto> [[66]]] \<rparr>"

definition idx_3_0 :: ClassInferenceResult where
  "idx_3_0 = \<lparr> classSet = [[65]],
     nameToClasses = [[0x5F20, 0x4E09] \<mapsto> [[65]], [0x674E, 0x56DB] \<mapsto> [[65]],
                      [0x738B, 0x4E94] \<mapsto> [[65]]] \<rparr>"

text \<open>
  The same sheet followed by 147 rows of a name that no index knows, 150 rows in all;
  and a sheet whose three rows carry the same name.
\<close>

definition big_infer_ex :: ExamConfig where
  "big_infer_ex = infer_ex \<lparr> rows := infer_rows @ replicate 147 [key col_name \<mapsto> CStr [0x8D75, 0x516D]] \<rparr>"

definition same_name_ex :: ExamConfig where
  "same_name_ex = infer_ex \<lparr> rows := replicate 3 [key col_name \<mapsto> CStr [0x5F20, 0x4E09]] \<rparr>"

text \<open>A name column that repeats its first name.\<close>

definition repeat_rows :: "row list" where
  "repeat_rows = [[key col_name \<mapsto> CStr [0x5F20, 0x4E09]], [key col_name \<mapsto> CStr [0x5F20, 0x4E09]],
                  [key col_name \<mapsto> CStr [0x674E, 0x56DB]]]"

text \<open>
  A sheet with a title of seven characters alone in row 0, an empty row 1, the header
  "full name", "class", "total score" in row 2 and one data row; and the matrix of
  the title row alone.
\<close>

definition title_row :: "cell list" where
  "title_row = [CStr [0x671F, 0x672B, 0x8003, 0x8BD5, 0x6210, 0x7EE9, 0x8868], CStr [], CStr []]"

definition header_row :: "cell list" where
  "header_row = [CStr [0x59D3, 0x540D], CStr [0x73ED, 0x7EA7], CStr [0x603B, 0x5206]]"

definition titled_matrix :: matrix where
  "titled_matrix = [title_row, [CStr [], CStr [], CStr []], header_row,
                    [CStr [0x5F20, 0x4E09], CNum 5, CNum 500]]"

text \<open>
  A worksheet without merge ranges, and one whose range covers the first three cells of
  row 0, the first of them holding A.
\<close>

definition ws_plain :: WorkSheet where
  "ws_plain = \<lparr> cells = [(0, 0) \<mapsto> CStr [65]], merges = [] \<rparr>"

definition ws_merged :: WorkSheet where
  "ws_merged = \<lparr> cells = [(0, 0) \<mapsto> CStr [65]],
                  merges = [\<lparr> s_r = 0, s_c = 0, e_r = 0, e_c = 2 \<rparr>] \<rparr>"

text \<open>A view of one row with a separator column after the first three columns.\<close>

definition side_view :: matrix where
  "side_view = [[CStr [65], CStr [65], CStr [65], CStr [], CStr [65], CStr [65]]]"

section \<open>Verified properties\<close>

subsection \<open>Rounding to doubles\<close>

lemma roundHalfEven_of_int: "roundHalfEven (of_int k) = k"
  by (simp add: roundHalfEven_def)

lemma roundHalfEven_nonneg: "0 \<le> y \<Longrightarrow> 0 \<le> roundHalfEven y"
  by (auto simp: roundHalfEven_def Let_def)

lemma pow2_pos: "0 < pow2 e"
  by (simp add: pow2_def)

lemma fl_zero: "fl 0 = 0"
  by (simp add: fl_def)

lemma fl_nonneg: "0 \<le> x \<Longrightarrow> 0 \<le> fl x"
proof (cases "x = 0")
  case True
  then show ?thesis by (simp add: fl_def)
next
  case False
  assume "0 \<le> x"
  with False have pos: "0 < x" by simp
  let ?u = "pow2 (max (expo \<bar>x\<bar> - 52) (- 1074))"
  have "0 \<le> \<bar>x\<bar> / ?u" using pow2_pos [of "max (expo \<bar>x\<bar> - 52) (- 1074)"] by simp
  then have "0 \<le> roundHalfEven (\<bar>x\<bar> / ?u)" by (rule roundHalfEven_nonneg)
  then have "0 \<le> of_int (roundHalfEven (\<bar>x\<bar> / ?u)) * ?u"
    using pow2_pos [of "max (expo \<bar>x\<bar> - 52) (- 1074)"] by simp
  then show ?thesis using pos False by (simp add: fl_def Let_def)
qed

lemma fl_pos_int:
  assumes "0 < a" "a < 2 ^ 53"
  shows "of_int (roundHalfEven (of_int a / pow2 (max (expo (of_int a) - 52) (- 1074)))) *
           pow2 (max (expo (of_int a) - 52) (- 1074)) = (of_int a :: rat)"
proof -
  have a1: "(1::rat) \<le> of_int a" using assms(1) by linarith
  have "bitlen a \<le> 53" using assms(2) by (simp add: bitlen_le_iff_power)
  moreover have "1 \<le> bitlen a" using assms(1) by (simp add: bitlen_alt_def)
  ultimately have b: "1 \<le> bitlen a" "bitlen a \<le> 53" by simp_all
  have "expo (of_int a) = bitlen \<lfloor>(of_int a :: rat)\<rfloor> - 1"
    using a1 by (simp only: expo_def if_True)
  then have ex: "expo (of_int a) = bitlen a - 1"
    by (simp only: floor_of_int)
  define k where "k = nat (53 - bitlen a)"
  have e: "max (expo (of_int a) - 52) (- 1074) = - int k"
    using b by (simp add: ex k_def)
  have u: "pow2 (- int k) = 1 / 2 ^ k"
    by (cases "k = 0") (simp_all add: pow2_def)
  have q: "of_int a / pow2 (- int k) = (of_int (a * 2 ^ k) :: rat)"
    by (simp add: u)
  have r: "roundHalfEven (of_int a / pow2 (- int k)) = a * 2 ^ k"
    unfolding q by (rule roundHalfEven_of_int)
  show ?thesis by (simp only: e r) (simp add: u)
qed

lemma fl_of_int:
  assumes "\<bar>n\<bar> < 2 ^ 53"
  shows "fl (of_int n) = of_int n"
proof (cases "n = 0")
  case True
  then show ?thesis by (simp add: fl_def)
next
  case False
  define a where "a = \<bar>n\<bar>"
  have a: "0 < a" "a < 2 ^ 53" using False assms by (simp_all add: a_def)
  have abs: "\<bar>of_int n :: rat\<bar> = of_int a" by (simp add: a_def)
  have "fl (of_int n) = sgn (of_int n) * (of_int (roundHalfEven (of_int a / pow2 (max (expo (of_int a) - 52) (- 1074)))) *
           pow2 (max (expo (of_int a) - 52) (- 1074)))"
    using False unfolding fl_def Let_def abs by (simp only: of_int_eq_0_iff if_False mult.assoc)
  also have "\<dots> = sgn (of_int n) * of_int a" by (simp only: fl_pos_int [OF a])
  also have "\<dots> = of_int n" unfolding abs [symmetric] by (simp add: sgn_if)
  finally show ?thesis .
qed

lemma fl_int_simps:
  "fl 1 = 1"
  "numeral w < (2::int) ^ 53 \<Longrightarrow> fl (numeral w) = numeral w"
  "numeral w < (2::int) ^ 53 \<Longrightarrow> fl (- numeral w) = - numeral w"
  using fl_of_int [of 1] fl_of_int [of "numeral w"] fl_of_int [of "- numeral w"] by simp_all

lemmas dbl_defs = dadd_def dsub_def dmul_def ddiv_def

lemma fl_consts:
  "fl (1 / 11) < fl (1 / 10)"
  "fl (2 / 3) < fl (85 / 100)" "\<not> fl (7 / 10) \<le> fl (2 / 3)"
  "fl (1 / 3) < fl (85 / 100)" "\<not> fl (7 / 10) \<le> fl (1 / 3)"
  "\<not> 1 < fl (85 / 100)" "fl (7 / 10) \<le> 1"
  "fl (2 / 3) < fl (17 / 20)" "fl (1 / 3) < fl (17 / 20)" "\<not> 1 < fl (17 / 20)"
  by code_simp+

text \<open>
  Rounding is visible at the threshold of the total column: with a bonus of 20 and 6
  numeric, 2 in-range and 1 very large value among 11, the exact score is 10 and the
  score in doubles is below 10.
\<close>

lemma score_below_ten_in_doubles:
  "dsub (dadd (dadd 20 (dmul (ddiv 6 11) 5)) (dmul (ddiv 2 11) 30)) (dmul (ddiv 1 11) 200) < 10"
  "(20 + 6 / 11 * 5 + 2 / 11 * 30 - 1 / 11 * 200 :: rat) = 10"
  by code_simp+

subsection \<open>Effective class\<close>

lemma toStr_CNull_iff: "rget r col = CNull \<Longrightarrow> trim (toStr (rget r col)) = []"
  by (simp add: trim_def)

lemma classValues_spec:
  "distinct acc \<Longrightarrow> length acc < 2 \<Longrightarrow>
   distinct (classValues col rs acc) \<and>
   (if card (set acc \<union> {v. v \<noteq> [] \<and> (\<exists>r \<in> set rs. v = trim (toStr (rget r col)))}) < 2
    then set (classValues col rs acc) =
         set acc \<union> {v. v \<noteq> [] \<and> (\<exists>r \<in> set rs. v = trim (toStr (rget r col)))}
    else length (classValues col rs acc) \<ge> 2)"
proof (induction rs arbitrary: acc)
  case Nil
  then show ?case by (simp add: distinct_card)
next
  case (Cons r rs)
  let ?v = "trim (toStr (rget r col))"
  let ?E = "\<lambda>xs. {v. v \<noteq> [] \<and> (\<exists>r \<in> set xs. v = trim (toStr (rget r col)))}"
  have E: "?E (r # rs) = (if ?v = [] then {} else {?v}) \<union> ?E rs"
    by auto
  show ?case
  proof (cases "?v = []")
    case True
    then have cv: "classValues col (r # rs) acc = classValues col rs acc"
      by (cases "rget r col") (simp_all add: Let_def)
    show ?thesis
      unfolding cv E using Cons.IH [OF Cons.prems] True by simp
  next
    case False
    then have nn: "rget r col \<noteq> CNull"
      using toStr_CNull_iff by blast
    let ?acc' = "set_add acc ?v"
    have d': "distinct ?acc'"
      using Cons.prems by (simp add: set_add_def)
    have s': "set ?acc' = set acc \<union> {?v}"
      by (auto simp: set_add_def)
    have fin: "finite (set acc \<union> {?v} \<union> ?E rs)"
    proof -
      have "?E rs \<subseteq> (\<lambda>r. trim (toStr (rget r col))) ` set rs" by auto
      then have "finite (?E rs)" by (rule finite_subset) simp
      then show ?thesis by simp
    qed
    show ?thesis
    proof (cases "length ?acc' \<ge> 2")
      case True
      then have cv: "classValues col (r # rs) acc = ?acc'"
        using False nn by (cases "rget r col") (simp_all add: Let_def)
      have c2: "card (set ?acc') \<ge> 2"
        using True d' by (simp add: distinct_card)
      have sub: "set ?acc' \<subseteq> set acc \<union> {?v} \<union> ?E rs"
        using s' by auto
      have "card (set ?acc') \<le> card (set acc \<union> {?v} \<union> ?E rs)"
        by (rule card_mono [OF fin sub])
      with c2 have big: "\<not> card (set acc \<union> {?v} \<union> ?E rs) < 2"
        by simp
      have eq: "set acc \<union> ?E (r # rs) = set acc \<union> {?v} \<union> ?E rs"
        unfolding E using False by auto
      show ?thesis
        unfolding cv eq using big True d' by simp
    next
      case F2: False
      then have cv: "classValues col (r # rs) acc = classValues col rs ?acc'"
        using False nn by (cases "rget r col") (simp_all add: Let_def)
      have "length ?acc' < 2" using F2 by simp
      have eq: "set acc \<union> ?E (r # rs) = set ?acc' \<union> ?E rs"
        unfolding E s' using False by auto
      from Cons.IH [OF d' \<open>length ?acc' < 2\<close>] show ?thesis
        unfolding cv eq .
    qed
  qed
qed

lemma classValues_sampled:
  "distinct (classValues col (take 300 rs) []) \<and>
   (if card (sampledClasses col rs) < 2
    then set (classValues col (take 300 rs) []) = sampledClasses col rs
    else length (classValues col (take 300 rs) []) \<ge> 2)"
  using classValues_spec [where acc="[]" and rs="take 300 rs" and col=col]
  by (simp add: sampledClasses_def)

lemma finite_sampledClasses: "finite (sampledClasses col rs)"
proof -
  have "sampledClasses col rs \<subseteq> (\<lambda>r. trim (toStr (rget r col))) ` set (take 300 rs)"
    by (auto simp: sampledClasses_def)
  then show ?thesis by (rule finite_subset) simp
qed

text \<open>
  C7. \<open>getEffectiveClass\<close> follows a strict precedence: the trimmed override when it
  is not empty (so an override of 3 wins over a class column that reads 5 in every row);
  otherwise, when a class column is present, the distinct class values sampled from the
  first 300 rows decide: none gives "unknown", exactly one gives that value, two or
  more give "school-wide"; otherwise the inferred class; otherwise "unknown".
\<close>

theorem getEffectiveClass_precedence:
  "getEffectiveClass ex =
     (if trim (overrideClass ex) \<noteq> [] then trim (overrideClass ex)
      else if classCol ex \<noteq> [] then
        (if card (sampledClasses (classCol ex) (rows ex)) = 0 then unknownClass
         else if card (sampledClasses (classCol ex) (rows ex)) = 1
              then the_elem (sampledClasses (classCol ex) (rows ex))
         else schoolWide)
      else if inferredClass ex \<noteq> [] then inferredClass ex
      else unknownClass)"
proof -
  let ?D = "sampledClasses (classCol ex) (rows ex)"
  let ?s = "classValues (classCol ex) (take 300 (rows ex)) []"
  have d: "distinct ?s" using classValues_sampled by blast
  have inner: "(if length ?s = 1 then hd ?s else if length ?s \<ge> 2 then schoolWide else unknownClass)
      = (if card ?D = 0 then unknownClass else if card ?D = 1 then the_elem ?D else schoolWide)"
  proof (cases "card ?D < 2")
    case True
    then have eq: "set ?s = ?D" using classValues_sampled [of "classCol ex" "rows ex"] by simp
    then have len: "length ?s = card ?D" using d distinct_card by fastforce
    show ?thesis
    proof (cases "card ?D = 0")
      case True
      then show ?thesis using len by simp
    next
      case False
      with \<open>card ?D < 2\<close> have c1: "card ?D = 1" by simp
      then obtain x where x: "?s = [x]" using len
        by (metis One_nat_def length_0_conv length_Suc_conv)
      then have "?D = {x}" using eq by simp
      then show ?thesis using c1 len x by simp
    qed
  next
    case False
    then have "length ?s \<ge> 2" using classValues_sampled [of "classCol ex" "rows ex"] by simp
    then show ?thesis using False by simp
  qed
  show ?thesis
    unfolding getEffectiveClass_def Let_def inner by simp
qed

theorem getEffectiveClass_override_witness:
  "getEffectiveClass ex_override = [51]"
  using getEffectiveClass_precedence [of ex_override]
  by (simp add: ex_override_def trim_def is_ws_def)

subsection \<open>Choosing the best column\<close>

lemma pick_best:
  fixes f :: "ParsedColumn \<Rightarrow> rat"
  shows "foldl (keepBest f) (b0, s0) cs = (b, s)
   \<Longrightarrow> (\<forall>d \<in> set cs. f d \<le> s) \<and> s0 \<le> s \<and>
       ((b = b0 \<and> s = s0) \<or> (\<exists>c \<in> set cs. b = key c \<and> s = f c \<and> s0 < s))"
proof (induction cs arbitrary: b s rule: rev_induct)
  case Nil
  then show ?case by simp
next
  case (snoc x xs)
  obtain b1 s1 where st: "foldl (keepBest f) (b0, s0) xs = (b1, s1)"
    by (meson surj_pair)
  note IH = snoc.IH [OF st]
  from snoc.prems have step: "keepBest f (b1, s1) x = (b, s)" by (simp add: st)
  show ?case
  proof (cases "f x > s1")
    case True
    then have "b = key x" "s = f x" using step by (simp_all add: keepBest_def Let_def)
    then show ?thesis using IH True by fastforce
  next
    case False
    then have "b = b1" "s = s1" using step by (simp_all add: keepBest_def Let_def)
    then show ?thesis using IH False by fastforce
  qed
qed

lemma pick_best_stable:
  fixes f :: "ParsedColumn \<Rightarrow> rat"
  shows "\<forall>d \<in> set cs. f d \<le> s0 \<Longrightarrow>
   foldl (keepBest f) (b0, s0) cs = (b0, s0)"
  by (induction cs) (simp_all add: keepBest_def Let_def)

lemma guessTotalCol_cases:
  "(guessTotalCol rs cs = [] \<and> (\<forall>d \<in> set cs. scoreTotal rs d < 10)) \<or>
   (\<exists>c \<in> set cs. guessTotalCol rs cs = key c \<and> scoreTotal rs c \<ge> 10 \<and>
        (\<forall>d \<in> set cs. scoreTotal rs d \<le> scoreTotal rs c))"
proof -
  obtain b s where st: "foldl (keepBest (scoreTotal rs)) ([], - (10 ^ 9)) cs = (b, s)"
    by (meson surj_pair)
  have g: "guessTotalCol rs cs = (if s < 10 then [] else b)"
    unfolding guessTotalCol_def st by simp
  from pick_best [OF st] have
    le: "\<forall>d \<in> set cs. scoreTotal rs d \<le> s" and
    alt: "(b = [] \<and> s = - (10 ^ 9)) \<or> (\<exists>c \<in> set cs. b = key c \<and> s = scoreTotal rs c \<and> - (10 ^ 9) < s)"
    by blast+
  show ?thesis
  proof (cases "s < 10")
    case True
    then show ?thesis using g le by fastforce
  next
    case False
    then have "s \<noteq> - (10 ^ 9)" by auto
    with alt obtain c where "c \<in> set cs" "b = key c" "s = scoreTotal rs c" by blast
    then show ?thesis using g le False by auto
  qed
qed

lemma nameScore_nonneg: "nameScore rs c \<ge> 0"
  by (simp add: nameScore_def Let_def dbl_defs fl_nonneg)

lemma guessNameCol_in_keys:
  assumes "cs \<noteq> []"
  shows "\<exists>c \<in> set cs. guessNameCol rs cs = key c \<and> (\<forall>d \<in> set cs. nameScore rs d \<le> nameScore rs c)"
proof -
  define b0 where "b0 = (case find (\<lambda>c. isNameHeader (normalizeHeader (label c))) cs of
                     Some c \<Rightarrow> key c
                   | None \<Rightarrow> (case cs of [] \<Rightarrow> [] | c # _ \<Rightarrow> key c))"
  obtain b s where st: "foldl (keepBest (nameScore rs)) (b0, - 1) cs = (b, s)"
    by (meson surj_pair)
  have g: "guessNameCol rs cs = b"
    unfolding guessNameCol_def Let_def b0_def [symmetric] st by simp
  from pick_best [OF st] have
    le: "\<forall>d \<in> set cs. nameScore rs d \<le> s" and
    alt: "(b = b0 \<and> s = - 1) \<or> (\<exists>c \<in> set cs. b = key c \<and> s = nameScore rs c \<and> - 1 < s)"
    by blast+
  obtain c0 where "c0 \<in> set cs" using assms by (cases cs) auto
  then have "0 \<le> s" using le nameScore_nonneg [of rs c0] by force
  then have "s \<noteq> - 1" by auto
  with alt obtain c where "c \<in> set cs" "b = key c" "s = nameScore rs c" by blast
  then show ?thesis using g le by auto
qed

lemma guessNameCol_fallback:
  assumes "\<forall>c \<in> set (c0 # cs). nameScore rs c = 0"
  shows "guessNameCol rs (c0 # cs) = key c0"
proof -
  have "foldl (keepBest (nameScore rs)) (key c0, 0) cs = (key c0, 0)"
    by (rule pick_best_stable) (use assms in simp)
  then show ?thesis using assms by (simp add: guessNameCol_def keepBest_def Let_def split: option.splits)
qed

subsection \<open>Evaluating the example sheets\<close>

lemmas hdr_defs = normalizeHeader_def trim_def is_ws_def stripColSuffix_def toLowerCase_def
  lowerUnit_def is_letter_def
lemmas col_defs = col_name_def col_class_def col_total_def col_name2_def col_sid_def
lemmas cell_defs = cellText_def rget_def blankCell_def trim_def is_ws_def num_str_def digits_of.simps

lemma nh_name: "normalizeHeader (label col_name) = [0x59D3, 0x540D]" by (simp add: hdr_defs col_defs)
lemma nh_name2: "normalizeHeader (label col_name2) = [0x59D3, 0x540D]" by (simp add: hdr_defs col_defs)
lemma nh_class: "normalizeHeader (label col_class) = [0x73ED, 0x7EA7]" by (simp add: hdr_defs col_defs)
lemma nh_total: "normalizeHeader (label col_total) = [0x603B, 0x5206]" by (simp add: hdr_defs col_defs)
lemma nh_sid: "normalizeHeader (label col_sid) = [0x5B66, 0x53F7]" by (simp add: hdr_defs col_defs)
lemmas nh_simps = nh_name nh_name2 nh_class nh_total nh_sid

lemma importSheet_classCol:
  "classCol (importSheet f s b cs rs) =
     (if guessClassCol cs \<noteq> [] \<and> \<not> hasAnyNonEmpty rs (guessClassCol cs) then [] else guessClassCol cs)"
  by (simp add: importSheet_def Let_def)

lemma importSheet_nameCol:
  "nameCol (importSheet f s b cs rs) =
     (if findAllNameCols cs \<noteq> [] \<and> hd (findAllNameCols cs) \<noteq> [] then hd (findAllNameCols cs)
      else guessNameCol rs cs)"
  by (simp add: importSheet_def Let_def)

lemma importSheet_fatalErrors:
  "fatalErrors (importSheet f s b cs rs) =
     (if length (findAllNameCols cs) \<ge> 2 then [MultipleNameCols (length (findAllNameCols cs))] else []) @
     (if nameCol (importSheet f s b cs rs) = [] then [NoNameCol] else [])"
  by (simp add: importSheet_def Let_def)

subsection \<open>The class column of the record\<close>

lemma sheet_guessClassCol: "guessClassCol sheet_cols = key col_class"
  by (simp add: sheet_cols_def guessClassCol_def classRankLike_def classExclude_def rankWithScope_def
      classIncludeExact_def nh_simps)
lemma sheet_hasAny: "hasAnyNonEmpty sparse_rows (key col_class)"
  by (simp add: hasAnyNonEmpty_def sparse_rows_def sheet_row_def col_defs cell_defs)
lemma sheet_nameCols: "findAllNameCols sheet_cols = [key col_name]"
  by (simp add: sheet_cols_def findAllNameCols_def isNameHeader_def nh_simps)
lemma sheet_fixed: "fixedClassCol sparse_rows (key col_name) (key col_class) = []"
  by (simp add: fixedClassCol_def sparse_rows_def sheet_row_def col_defs cell_defs dbl_defs fl_consts)

text \<open>
  C1. A class column that is non-empty in fewer than 10% of the sampled rows with a name
  (at least 10 of them) should be absent from the record. \<open>importFiles\<close> computes
  the rejection in \<open>fixedClassCol\<close> and then stores \<open>classCol\<close>, the column before
  the check: on the sheet below, with one class in eleven named rows, the check rejects
  the column and the record still carries it.
\<close>

theorem importSheet_keeps_sparse_classCol:
  "fixedClassCol sparse_rows
      (nameCol (importSheet [97] [98] [99] sheet_cols sparse_rows))
      (classCol (importSheet [97] [98] [99] sheet_cols sparse_rows)) = [] \<and>
   classCol (importSheet [97] [98] [99] sheet_cols sparse_rows) = key col_class \<and>
   key col_class \<noteq> []"
proof -
  have k: "key col_class \<noteq> []" "key col_name \<noteq> []" by (simp_all add: col_defs)
  have c: "classCol (importSheet [97] [98] [99] sheet_cols sparse_rows) = key col_class"
    by (simp add: importSheet_classCol sheet_guessClassCol sheet_hasAny)
  have n: "nameCol (importSheet [97] [98] [99] sheet_cols sparse_rows) = key col_name"
    by (simp add: importSheet_nameCol sheet_nameCols k)
  show ?thesis unfolding c n using sheet_fixed k by simp
qed

subsection \<open>Several name columns\<close>

lemma dup_nameCols: "findAllNameCols dup_cols = [key col_name, key col_name2]"
  by (simp add: dup_cols_def findAllNameCols_def isNameHeader_def nh_simps)

text \<open>
  With two columns headed "full name" the record's name column is the first of them.
\<close>

theorem importSheet_duplicate_names_counterexample:
  "length (findAllNameCols dup_cols) \<ge> 2 \<and>
   nameCol (importSheet [97] [98] [99] dup_cols dup_rows) = key col_name \<and>
   key col_name \<noteq> []"
  by (simp add: importSheet_nameCol dup_nameCols) (simp add: col_defs)

lemma find_filter_hd: "filter P xs \<noteq> [] \<Longrightarrow> find P xs = Some (hd (filter P xs))"
  by (induction xs) auto

text \<open>
  C2, as the code has it. When at least two columns of the chosen block have a header
  that reads as a name column, the record carries the fatal error for several name
  columns, and its name column is not empty but the key of the first such column
  (whenever that key is not empty).
\<close>

theorem importSheet_duplicate_names:
  assumes "length (findAllNameCols cs) \<ge> 2"
  shows "MultipleNameCols (length (findAllNameCols cs)) \<in> set (fatalErrors (importSheet f s b cs rs)) \<and>
         (\<exists>c \<in> set cs. find (\<lambda>c. isNameHeader (normalizeHeader (label c))) cs = Some c \<and>
            (key c \<noteq> [] \<longrightarrow> nameCol (importSheet f s b cs rs) = key c))"
proof -
  let ?P = "\<lambda>c. isNameHeader (normalizeHeader (label c))"
  have ne: "filter ?P cs \<noteq> []" using assms by (auto simp: findAllNameCols_def)
  then have f: "find ?P cs = Some (hd (filter ?P cs))" by (rule find_filter_hd)
  have mem: "hd (filter ?P cs) \<in> set cs"
    using ne by (metis filter_is_subset hd_in_set subsetD)
  have hdk: "hd (findAllNameCols cs) = key (hd (filter ?P cs))"
    using ne by (simp add: findAllNameCols_def hd_map)
  have nn: "findAllNameCols cs \<noteq> []" using assms by auto
  have "key (hd (filter ?P cs)) \<noteq> [] \<longrightarrow> nameCol (importSheet f s b cs rs) = key (hd (filter ?P cs))"
    by (simp add: importSheet_nameCol hdk nn)
  moreover have "MultipleNameCols (length (findAllNameCols cs)) \<in> set (fatalErrors (importSheet f s b cs rs))"
    using assms by (simp add: importSheet_fatalErrors)
  ultimately show ?thesis using f mem by blast
qed

theorem importSheet_duplicate_names_witness:
  "2 \<le> length (findAllNameCols dup_cols) \<and>
   MultipleNameCols (length (findAllNameCols dup_cols))
     \<in> set (fatalErrors (importSheet [97] [98] [99] dup_cols dup_rows))"
proof -
  have h: "2 \<le> length (findAllNameCols dup_cols)" by (simp add: dup_nameCols)
  show ?thesis
    using h importSheet_duplicate_names [OF h, of "[97]" "[98]" "[99]" dup_rows] by blast
qed

subsection \<open>Bounds on the total score\<close>


lemma score0_le: "(if list_ex (\<lambda>g. str_includes h g) totalGood then 20 else 0) \<le> (20::rat)"
  by simp





lemma guessTotalCol_not_low:
  assumes "c \<in> set cs" "distinct (map key cs)" "key c \<noteq> []" "scoreTotal rs c < 10"
  shows "guessTotalCol rs cs \<noteq> key c"
proof
  assume eq: "guessTotalCol rs cs = key c"
  with assms(3) have "guessTotalCol rs cs \<noteq> []" by simp
  with guessTotalCol_cases [of rs cs] obtain d where
    d: "d \<in> set cs" "guessTotalCol rs cs = key d" "10 \<le> scoreTotal rs d" by blast
  have "inj_on key (set cs)" using assms(2) by (simp add: distinct_map)
  with d(1,2) assms(1) eq have "d = c" by (simp add: inj_on_def)
  with d(3) assms(4) show False by simp
qed

subsection \<open>Hard exclusion from the total column\<close>

lemma key_simps:
  "key col_name = [0x59D3, 0x540D, 95, 95, 48]" "key col_class = [0x73ED, 0x7EA7, 95, 95, 49]"
  "key col_total = [0x603B, 0x5206, 95, 95, 50]" "key col_name2 = [0x59D3, 0x540D, 95, 95, 49]"
  "key col_sid = [0x5B66, 0x53F7, 95, 95, 48]"
  by (simp_all add: col_defs)

lemmas score_defs = scoreTotal_def isRankLike_def isMetaLike_def rankWithScope_def totalGood_def
  dbl_defs fl_zero fl_int_simps

lemma id_guessIdCol: "guessIdCol id_cols = key col_sid"
  by (simp add: id_cols_def guessIdCol_def idKeys_def nh_simps)

lemma small_score_sid: "scoreTotal small_id_rows col_sid = 35"
  by (simp add: score_defs nh_simps key_simps small_id_rows_def id_row_def cell_defs)

lemma score_name2: "scoreTotal rs col_name2 = - 9999"
  by (simp add: scoreTotal_def isRankLike_def isMetaLike_def rankWithScope_def nh_simps)

lemma id_score_total: "scoreTotal small_id_rows col_total = - 30"
  by (simp add: score_defs nh_simps key_simps small_id_rows_def id_row_def cell_defs)

lemma small_guessTotalCol: "guessTotalCol small_id_rows id_cols = key col_sid"
  by (simp add: guessTotalCol_def id_cols_def keepBest_def small_score_sid score_name2 id_score_total)

text \<open>
  A column headed "student number", which \<open>guessIdCol\<close> takes as the id column, is
  scored from its values: with the numbers 1, 2 and 3 it gets 35 and is chosen as
  the total column.
\<close>

theorem scoreTotal_hard_exclude_counterexample:
  "guessIdCol id_cols = key col_sid \<and>
   scoreTotal small_id_rows col_sid = 35 \<and>
   guessTotalCol small_id_rows id_cols = key col_sid"
  by (simp add: id_guessIdCol small_score_sid small_guessTotalCol)

text \<open>
  C3, as the code has it. A column whose normalised header is rank-like (\<open>isRankLike\<close>)
  or is one of the class, exam-number and name headers of \<open>isMetaLike\<close> scores -9999,
  and in a block with distinct keys it is never chosen as the total column. The
  student-id headers are not in that list.
\<close>

theorem scoreTotal_hard_exclude:
  assumes "isRankLike (normalizeHeader (label c)) \<or> isMetaLike (normalizeHeader (label c))"
  shows "scoreTotal rs c = - 9999 \<and>
         (c \<in> set cs \<and> distinct (map key cs) \<and> key c \<noteq> [] \<longrightarrow> guessTotalCol rs cs \<noteq> key c)"
proof -
  have s: "scoreTotal rs c = - 9999"
    using assms by (auto simp: scoreTotal_def Let_def)
  then have "scoreTotal rs c < 10" by simp
  then show ?thesis using s guessTotalCol_not_low by blast
qed

theorem scoreTotal_hard_exclude_witness:
  "isMetaLike (normalizeHeader (label col_name2)) \<and>
   scoreTotal small_id_rows col_name2 = - 9999 \<and>
   guessTotalCol small_id_rows id_cols \<noteq> key col_name2"
proof -
  have m: "isMetaLike (normalizeHeader (label col_name2))"
    by (simp add: isMetaLike_def nh_simps)
  have k: "col_name2 \<in> set id_cols" "distinct (map key id_cols)" "key col_name2 \<noteq> []"
    by (simp_all add: id_cols_def col_defs)
  show ?thesis
    using m k scoreTotal_hard_exclude [of col_name2 small_id_rows id_cols] by blast
qed

subsection \<open>The acceptance threshold of the total column\<close>











subsection \<open>The name column is always found\<close>

lemma splitBlocks_width:
  "rg \<in> set (splitBlocks view headers) \<Longrightarrow> fst rg + 2 \<le> snd rg"
  by (auto simp: splitBlocks_def Let_def split: prod.splits if_splits)

lemma makeUniqueColumns_length: "length (makeUniqueColumns headers start stop) = Suc stop - start"
  by (simp add: makeUniqueColumns_def del: upt_Suc)

lemma makeUniqueColumns_keys: "c \<in> set (makeUniqueColumns headers start stop) \<Longrightarrow> key c \<noteq> []"
  by (auto simp: makeUniqueColumns_def Let_def)

lemma skipCuts_stop: "\<not> (c < W \<and> c \<in> set cuts) \<Longrightarrow> skipCuts cuts W c = c"
  by (subst skipCuts.simps) auto

lemma skipCuts_step: "c < W \<Longrightarrow> c \<in> set cuts \<Longrightarrow> skipCuts cuts W c = skipCuts cuts W (Suc c)"
  by (subst skipCuts.simps) simp

lemma splitLoop_done: "\<not> c < W \<Longrightarrow> splitLoop cuts W start c ranges = (start, ranges)"
  by (subst splitLoop.simps) simp

lemma splitLoop_cut:
  "c < W \<Longrightarrow> c \<in> set cuts \<Longrightarrow>
   splitLoop cuts W start c ranges =
     splitLoop cuts W (skipCuts cuts W c) (skipCuts cuts W c)
       (if int c - 1 \<ge> int start then ranges @ [(start, c - 1)] else ranges)"
  by (subst splitLoop.simps) (simp add: Let_def)

lemma splitLoop_step:
  "c < W \<Longrightarrow> c \<notin> set cuts \<Longrightarrow>
   splitLoop cuts W start c ranges = splitLoop cuts W start (Suc c) ranges"
  by (subst splitLoop.simps) simp

lemma side_cuts: "filter (\<lambda>c. isSeparatorCol side_view c 2) [0 ..< 6] = [3]"
  by (simp add: upt_rec isSeparatorCol_def side_view_def matrixCell_def getRow_def cellAt_def
      isEmptyCell_def trim_def is_ws_def)

lemma side_loop: "splitLoop [3] 6 0 0 [] = (4, [(0, 2)])"
  by (simp add: splitLoop_done splitLoop_cut splitLoop_step skipCuts_stop skipCuts_step)

lemma side_split: "splitBlocks side_view (replicate 6 [65]) = [(0, 2)]"
  by (simp add: splitBlocks_def side_cuts side_loop)

lemma importSheet_nameCol_found:
  assumes a: "cs \<noteq> [] \<and> (\<forall>c \<in> set cs. key c \<noteq> [])"
  shows "nameCol (importSheet f s b cs rs) \<in> key ` set cs \<and>
         nameCol (importSheet f s b cs rs) \<noteq> [] \<and>
         NoNameCol \<notin> set (fatalErrors (importSheet f s b cs rs))"
proof -
  have mem: "nameCol (importSheet f s b cs rs) \<in> key ` set cs"
  proof (cases "findAllNameCols cs \<noteq> [] \<and> hd (findAllNameCols cs) \<noteq> []")
    case True
    then have "hd (findAllNameCols cs) \<in> set (findAllNameCols cs)" by simp
    then have "hd (findAllNameCols cs) \<in> key ` set cs" by (auto simp: findAllNameCols_def)
    then show ?thesis using True by (simp add: importSheet_nameCol)
  next
    case False
    then have "nameCol (importSheet f s b cs rs) = guessNameCol rs cs"
      by (auto simp: importSheet_nameCol)
    then show ?thesis using a guessNameCol_in_keys [of cs rs] by auto
  qed
  from mem a have ne: "nameCol (importSheet f s b cs rs) \<noteq> []" by auto
  then have "NoNameCol \<notin> set (fatalErrors (importSheet f s b cs rs))"
    by (simp add: importSheet_fatalErrors)
  with mem ne show ?thesis by simp
qed

text \<open>
  C10. For a block with at least one column \<open>guessNameCol\<close> returns the key of a column
  of the block, one of maximal score, and the first column when no column scores. So
  for a block with at least one column and no empty key the record's name column is
  the key of a column, not empty, and the fatal error "no name column" is not raised.
  Every block of the parser is such a block: \<open>splitBlocks\<close> keeps the ranges of at least
  3 columns and \<open>makeUniqueColumns\<close> gives each column a key that is not empty.
\<close>

theorem guessNameCol_total:
  "(cs \<noteq> [] \<longrightarrow>
      (\<exists>c \<in> set cs. guessNameCol rs cs = key c \<and> (\<forall>d \<in> set cs. nameScore rs d \<le> nameScore rs c))) \<and>
   (cs \<noteq> [] \<and> (\<forall>c \<in> set cs. nameScore rs c = 0) \<longrightarrow> guessNameCol rs cs = key (hd cs)) \<and>
   (cs \<noteq> [] \<and> (\<forall>c \<in> set cs. key c \<noteq> []) \<longrightarrow>
      nameCol (importSheet f s b cs rs) \<in> key ` set cs \<and>
      nameCol (importSheet f s b cs rs) \<noteq> [] \<and>
      NoNameCol \<notin> set (fatalErrors (importSheet f s b cs rs))) \<and>
   (\<forall>rg \<in> set (splitBlocks view headers).
      3 \<le> length (makeUniqueColumns headers (fst rg) (snd rg)) \<and>
      nameCol (importSheet f s b (makeUniqueColumns headers (fst rg) (snd rg)) rs) \<noteq> [] \<and>
      NoNameCol \<notin> set (fatalErrors (importSheet f s b (makeUniqueColumns headers (fst rg) (snd rg)) rs)))"
proof (intro conjI impI ballI)
  assume "cs \<noteq> []"
  then show "\<exists>c \<in> set cs. guessNameCol rs cs = key c \<and> (\<forall>d \<in> set cs. nameScore rs d \<le> nameScore rs c)"
    by (rule guessNameCol_in_keys)
next
  assume a: "cs \<noteq> [] \<and> (\<forall>c \<in> set cs. nameScore rs c = 0)"
  then obtain c0 cs' where cs: "cs = c0 # cs'" by (cases cs) auto
  show "guessNameCol rs cs = key (hd cs)"
    using a guessNameCol_fallback [of c0 cs' rs] unfolding cs by simp
next
  assume a: "cs \<noteq> [] \<and> (\<forall>c \<in> set cs. key c \<noteq> [])"
  from importSheet_nameCol_found [OF a]
  show "nameCol (importSheet f s b cs rs) \<in> key ` set cs"
    and "nameCol (importSheet f s b cs rs) \<noteq> []"
    and "NoNameCol \<notin> set (fatalErrors (importSheet f s b cs rs))"
    by blast+
next
  fix rg assume rg: "rg \<in> set (splitBlocks view headers)"
  let ?cs = "makeUniqueColumns headers (fst rg) (snd rg)"
  from splitBlocks_width [OF rg] show len: "3 \<le> length ?cs"
    by (simp add: makeUniqueColumns_length)
  then have "?cs \<noteq> [] \<and> (\<forall>c \<in> set ?cs. key c \<noteq> [])"
    using makeUniqueColumns_keys by auto
  from importSheet_nameCol_found [OF this]
  show "nameCol (importSheet f s b ?cs rs) \<noteq> []"
    and "NoNameCol \<notin> set (fatalErrors (importSheet f s b ?cs rs))"
    by blast+
qed

lemma small_sid_texts:
  "map (\<lambda>r. cellText r (key col_sid)) (take 450 small_id_rows) = [[49], [50], [51]]"
  by (simp add: key_simps small_id_rows_def id_row_def cell_defs)

lemma small_total_texts:
  "map (\<lambda>r. cellText r (key col_total)) (take 450 small_id_rows) = [[], [], []]"
  by (simp add: key_simps small_id_rows_def id_row_def cell_defs)

lemma small_nameScore_zero: "\<forall>c \<in> set [col_sid, col_total]. nameScore small_id_rows c = 0"
  by (simp add: nameScore_def isNameHeader_def isLikelyChineseName_def nh_simps
      small_sid_texts small_total_texts trim_def is_ws_def dbl_defs fl_zero)

theorem guessNameCol_total_witness:
  "guessNameCol small_id_rows [col_sid, col_total] = key col_sid \<and>
   nameCol (importSheet [97] [98] [99] sheet_cols sparse_rows) \<noteq> [] \<and>
   NoNameCol \<notin> set (fatalErrors (importSheet [97] [98] [99] sheet_cols sparse_rows)) \<and>
   (0, 2) \<in> set (splitBlocks side_view (replicate 6 [65])) \<and>
   nameCol (importSheet [97] [98] [99] (makeUniqueColumns (replicate 6 [65]) 0 2) sparse_rows) \<noteq> []"
proof -
  have k: "sheet_cols \<noteq> [] \<and> (\<forall>c \<in> set sheet_cols. key c \<noteq> [])"
    by (simp add: sheet_cols_def key_simps)
  note t1 = guessNameCol_total [where cs="[col_sid, col_total]" and rs=small_id_rows
      and f="[97]" and s="[98]" and b="[99]" and view=side_view and headers="replicate 6 [65]"]
  have 1: "guessNameCol small_id_rows [col_sid, col_total] = key col_sid"
    using conjunct1 [OF conjunct2 [OF t1]] small_nameScore_zero by simp
  note t2 = guessNameCol_total [where cs=sheet_cols and rs=sparse_rows
      and f="[97]" and s="[98]" and b="[99]" and view=side_view and headers="replicate 6 [65]"]
  have 2: "nameCol (importSheet [97] [98] [99] sheet_cols sparse_rows) \<in> key ` set sheet_cols \<and>
      nameCol (importSheet [97] [98] [99] sheet_cols sparse_rows) \<noteq> [] \<and>
      NoNameCol \<notin> set (fatalErrors (importSheet [97] [98] [99] sheet_cols sparse_rows))"
    by (rule mp [OF conjunct1 [OF conjunct2 [OF conjunct2 [OF t2]]] k])
  have m: "(0, 2) \<in> set (splitBlocks side_view (replicate 6 [65]))"
    by (simp add: side_split)
  from bspec [OF conjunct2 [OF conjunct2 [OF conjunct2 [OF t2]]] m]
  have 3: "nameCol (importSheet [97] [98] [99] (makeUniqueColumns (replicate 6 [65]) 0 2) sparse_rows) \<noteq> []"
    by simp
  show ?thesis using 1 2 m 3 by blast
qed

subsection \<open>Sampling the names\<close>

lemma sampleLoop_take:
  "length names < 6 \<Longrightarrow>
   sampleLoop col rs names = take 6 (names @ filter (\<lambda>n. n \<noteq> []) (map (\<lambda>r. cellText r col) rs))"
proof (induction rs arbitrary: names)
  case Nil
  then show ?case by simp
next
  case (Cons r rs)
  show ?case
  proof (cases "cellText r col = []")
    case True
    then show ?thesis using Cons by simp
  next
    case False
    show ?thesis
    proof (cases "length (names @ [cellText r col]) \<ge> 6")
      case True
      with Cons.prems have "length names = 5" by simp
      then show ?thesis using False True by (simp add: Let_def)
    next
      case F: False
      then have "length (names @ [cellText r col]) < 6" by simp
      from Cons.IH [OF this] show ?thesis using False F by (simp add: Let_def)
    qed
  qed
qed

text \<open>
  With a name column that repeats its first name, the sample holds that name twice.
\<close>

theorem sampleNames_distinct_counterexample:
  "sampleNames (infer_ex\<lparr>rows := repeat_rows\<rparr>) =
     [[0x5F20, 0x4E09], [0x5F20, 0x4E09], [0x674E, 0x56DB]] \<and>
   \<not> distinct (sampleNames (infer_ex\<lparr>rows := repeat_rows\<rparr>))"
  by (simp add: sampleNames_def infer_ex_def repeat_rows_def cellText_def rget_def trim_def is_ws_def Let_def)

text \<open>
  C6, as the code has it. The names sampled for class voting are the first six non-empty
  trimmed values of the name column, in row order (fewer when the column has fewer);
  a name that the column repeats is sampled each time.
\<close>

theorem sampleNames_first_six:
  "sampleNames ex = take 6 (filter (\<lambda>n. n \<noteq> []) (map (\<lambda>r. cellText r (nameCol ex)) (rows ex)))"
  using sampleLoop_take [of "[]" "nameCol ex" "rows ex"] by (simp add: sampleNames_def)


subsection \<open>Counting the votes\<close>

lemma map_of_bump:
  "map_of (map (\<lambda>(k, v). if k = c then (k, v + 1) else (k, v)) vote) k =
     (if k = c then map_option (\<lambda>v. v + 1) (map_of vote k) else map_of vote k)"
  by (induction vote) auto

lemma voteGet_append:
  "c \<notin> fst ` set vote \<Longrightarrow> voteGet (vote @ [(c, w)]) k = (if k = c then w else voteGet vote k)"
  by (induction vote) (auto simp: voteGet_def)

lemma voteAdd_get: "voteGet (voteAdd vote c) k = voteGet vote k + (if k = c then 1 else 0)"
proof (cases "c \<in> fst ` set vote")
  case True
  then obtain v where "map_of vote c = Some v"
    by (metis domD dom_map_of_conv_image_fst)
  then show ?thesis using True
    by (auto simp: voteAdd_def voteGet_def map_of_bump)
next
  case False
  then have "map_of vote c = None" by (simp add: map_of_eq_None_iff)
  then have "voteGet vote c = 0" by (simp add: voteGet_def)
  then show ?thesis using False by (simp add: voteAdd_def voteGet_append)
qed

lemma bump_fst: "map fst (map (\<lambda>(k, v). if k = c then (k, v + 1) else (k, v)) vote) = map fst vote"
  by (induction vote) auto

lemma voteAdd_keys: "distinct (map fst vote) \<Longrightarrow> distinct (map fst (voteAdd vote c))"
proof (cases "c \<in> fst ` set vote")
  case True
  assume "distinct (map fst vote)"
  then have "distinct (map fst (map (\<lambda>(k, v). if k = c then (k, v + 1) else (k, v)) vote))"
    by (simp only: bump_fst)
  then show ?thesis using True by (simp only: voteAdd_def if_True)
next
  case False
  assume "distinct (map fst vote)"
  then show ?thesis using False by (simp add: voteAdd_def)
qed

lemma voteAdd_pos: "\<forall>e \<in> set vote. 0 < snd e \<Longrightarrow> \<forall>e \<in> set (voteAdd vote c). 0 < snd e"
  by (auto simp: voteAdd_def)

lemma voteAdd_nonempty: "voteAdd vote c \<noteq> []"
  by (auto simp: voteAdd_def)

lemma foldl_voteAdd:
  "distinct (map fst vote) \<Longrightarrow> \<forall>e \<in> set vote. 0 < snd e \<Longrightarrow>
   distinct (map fst (foldl voteAdd vote cs)) \<and> (\<forall>e \<in> set (foldl voteAdd vote cs). 0 < snd e) \<and>
   (\<forall>k. voteGet (foldl voteAdd vote cs) k = voteGet vote k + count_list cs k)"
proof (induction cs arbitrary: vote)
  case Nil
  then show ?case by simp
next
  case (Cons c cs)
  from Cons.IH [OF voteAdd_keys [OF Cons.prems(1)] voteAdd_pos [OF Cons.prems(2)], of c]
  show ?case by (simp add: voteAdd_get)
qed

lemma count_list_distinct: "distinct cs \<Longrightarrow> count_list cs k = (if k \<in> set cs then 1 else 0)"
  by (induction cs) auto

lemma tally_spec:
  assumes sets: "\<forall>n cls. nameToClasses idx n = Some cls \<longrightarrow> distinct cls"
  shows "distinct (map fst vote) \<Longrightarrow> \<forall>e \<in> set vote. 0 < snd e \<Longrightarrow>
   foldl (tallyStep idx) (vote, hit) names = (vote', hit') \<Longrightarrow>
   distinct (map fst vote') \<and> (\<forall>e \<in> set vote'. 0 < snd e) \<and>
   hit' = hit + contributors idx names \<and>
   (\<forall>k. voteGet vote' k = voteGet vote k + votesFor idx names k)"
proof (induction names arbitrary: vote hit)
  case Nil
  then show ?case by (simp add: contributors_def votesFor_def)
next
  case (Cons n names)
  show ?case
  proof (cases "knownClasses idx n = []")
    case True
    then have st: "tallyStep idx (vote, hit) n = (vote, hit)"
      by (auto simp: tallyStep_def knownClasses_def split: option.splits)
    from Cons.prems(3) have "foldl (tallyStep idx) (vote, hit) names = (vote', hit')"
      by (simp add: st)
    from Cons.IH [OF Cons.prems(1,2) this] show ?thesis
      using True by (simp add: contributors_def votesFor_def)
  next
    case False
    then obtain cls where cls: "nameToClasses idx n = Some cls" "cls \<noteq> []" "knownClasses idx n = cls"
      by (auto simp: knownClasses_def split: option.splits)
    then have d: "distinct cls" using sets by blast
    have st: "tallyStep idx (vote, hit) n = (foldl voteAdd vote cls, hit + 1)"
      using cls by (simp add: tallyStep_def)
    note f = foldl_voteAdd [OF Cons.prems(1,2), of cls]
    from Cons.prems(3) have "foldl (tallyStep idx) (foldl voteAdd vote cls, hit + 1) names = (vote', hit')"
      by (simp add: st)
    from Cons.IH [OF conjunct1 [OF f] conjunct1 [OF conjunct2 [OF f]] this]
    show ?thesis
      using f cls False by (simp add: contributors_def votesFor_def count_list_distinct [OF d])
  qed
qed

lemma bestVote_step:
  "foldl (\<lambda>(bestC, bestV) (c, v). if int v > bestV then (c, int v) else (bestC, bestV))
         (b0, v0) vote = (b, v) \<Longrightarrow>
   (\<forall>e \<in> set vote. int (snd e) \<le> v) \<and> v0 \<le> v \<and>
   ((b = b0 \<and> v = v0) \<or> (\<exists>e \<in> set vote. b = fst e \<and> v = int (snd e)))"
proof (induction vote arbitrary: b v rule: rev_induct)
  case Nil
  then show ?case by simp
next
  case (snoc x xs)
  obtain b1 v1 where st: "foldl (\<lambda>(bestC, bestV) (c, v). if int v > bestV then (c, int v) else (bestC, bestV))
         (b0, v0) xs = (b1, v1)"
    by (meson surj_pair)
  note IH = snoc.IH [OF st]
  obtain c w where x: "x = (c, w)" by (cases x)
  from snoc.prems have step: "(if int w > v1 then (c, int w) else (b1, v1)) = (b, v)"
    by (simp add: st x)
  show ?case
  proof (cases "int w > v1")
    case True
    then have "b = c" "v = int w" using step by simp_all
    then show ?thesis using IH True x by fastforce
  next
    case False
    then have "b = b1" "v = v1" using step by simp_all
    then show ?thesis using IH False x by fastforce
  qed
qed

lemma bestVote_spec:
  assumes "distinct (map fst vote)" "vote \<noteq> []"
  obtains c v where "bestVote vote = (c, int v)" "voteGet vote c = v" "\<forall>k. voteGet vote k \<le> v"
    "(c, v) \<in> set vote"
proof -
  obtain b w where st: "bestVote vote = (b, w)" by (meson surj_pair)
  from bestVote_step [OF st [unfolded bestVote_def]] have
    le: "\<forall>e \<in> set vote. int (snd e) \<le> w" and
    alt: "(b = [] \<and> w = - 1) \<or> (\<exists>e \<in> set vote. b = fst e \<and> w = int (snd e))" by blast+
  obtain e0 where "e0 \<in> set vote" using assms(2) by (cases vote) auto
  with le have "0 \<le> w" by force
  with alt obtain e where e: "e \<in> set vote" "b = fst e" "w = int (snd e)" by auto
  then have mem: "(b, snd e) \<in> set vote" by simp
  then have get: "voteGet vote b = snd e"
    using assms(1) by (simp add: voteGet_def)
  have "\<forall>k. voteGet vote k \<le> snd e"
  proof
    fix k
    show "voteGet vote k \<le> snd e"
    proof (cases "map_of vote k")
      case None
      then show ?thesis by (simp add: voteGet_def)
    next
      case (Some u)
      then have "(k, u) \<in> set vote" by (rule map_of_SomeD)
      with le e(3) have "u \<le> snd e" by force
      then show ?thesis using Some by (simp add: voteGet_def)
    qed
  qed
  then show ?thesis using that [of b "snd e"] st e(3) get mem by simp
qed


subsection \<open>The decision of the class inference\<close>

lemma inferSheetClass_rule:
  assumes need: "\<not> hasClassData ex"
    and sets: "\<forall>n cls. nameToClasses idx n = Some cls \<longrightarrow> distinct cls"
  shows "(nameCol ex = [] \<or> contributors idx (sampleNames ex) < 3 \<longrightarrow>
            inferSheetClass ex idx = unknownClass) \<and>
         (nameCol ex \<noteq> [] \<and> 3 \<le> contributors idx (sampleNames ex) \<longrightarrow>
            (\<exists>best. 0 < votesFor idx (sampleNames ex) best \<and>
               (\<forall>c. votesFor idx (sampleNames ex) c \<le> votesFor idx (sampleNames ex) best) \<and>
               inferSheetClass ex idx =
                 (if 150 \<le> length (rows ex) \<and>
                     ddiv (of_nat (votesFor idx (sampleNames ex) best))
                          (of_nat (contributors idx (sampleNames ex))) < fl (85 / 100)
                  then schoolWide
                  else if fl (7 / 10) \<le> ddiv (of_nat (votesFor idx (sampleNames ex) best))
                                           (of_nat (contributors idx (sampleNames ex)))
                  then best else unknownClass)))"
proof -
  let ?names = "sampleNames ex"
  obtain vote hit where st: "foldl (tallyStep idx) ([], 0) ?names = (vote, hit)"
    by (meson surj_pair)
  from tally_spec [OF sets _ _ st] have
    dk: "distinct (map fst vote)" and
    hit: "hit = contributors idx ?names" and
    vg: "\<forall>k. voteGet vote k = votesFor idx ?names k"
    by (simp_all add: voteGet_def)
  have len: "contributors idx ?names \<le> length ?names"
    by (simp add: contributors_def)
  have unf: "inferSheetClass ex idx =
     (if nameCol ex = [] then unknownClass
      else if length ?names < 3 then unknownClass
      else if hit < 3 \<or> vote = [] then unknownClass
      else (case bestVote vote of (bestC, bestV) \<Rightarrow>
              if length (rows ex) \<ge> 150 \<and> ddiv (of_int bestV) (of_nat hit) < fl (85 / 100) then schoolWide
              else if ddiv (of_int bestV) (of_nat hit) \<ge> fl (7 / 10) then bestC
              else unknownClass))"
    using need unfolding inferSheetClass_def Let_def st by simp
  show ?thesis
  proof (intro conjI impI)
    assume "nameCol ex = [] \<or> contributors idx ?names < 3"
    then show "inferSheetClass ex idx = unknownClass"
      unfolding unf using hit by auto
  next
    assume a: "nameCol ex \<noteq> [] \<and> 3 \<le> contributors idx ?names"
    then have "filter (\<lambda>n. knownClasses idx n \<noteq> []) ?names \<noteq> []"
      by (auto simp: contributors_def)
    then obtain n where n: "n \<in> set ?names" "knownClasses idx n \<noteq> []"
      by (metis (mono_tags, lifting) filter_False)
    then obtain c0 where c0: "c0 \<in> set (knownClasses idx n)" by (cases "knownClasses idx n") auto
    have "filter (\<lambda>n. c0 \<in> set (knownClasses idx n)) ?names \<noteq> []"
      using n(1) c0 by (auto simp: filter_empty_conv)
    then have pos0: "0 < votesFor idx ?names c0" by (simp add: votesFor_def)
    then have "voteGet vote c0 \<noteq> 0" using vg by simp
    then have ne: "vote \<noteq> []" by (auto simp: voteGet_def)
    from bestVote_spec [OF dk ne] obtain c v where
      bv: "bestVote vote = (c, int v)" and g: "voteGet vote c = v" and mx: "\<forall>k. voteGet vote k \<le> v"
      by blast
    have v: "v = votesFor idx ?names c" using g vg by simp
    have mx': "\<forall>k. votesFor idx ?names k \<le> votesFor idx ?names c" using mx vg v by simp
    then have pos: "0 < votesFor idx ?names c" using pos0 by (metis le_0_eq neq0_conv)
    have res: "inferSheetClass ex idx =
       (if 150 \<le> length (rows ex) \<and>
           ddiv (of_nat (votesFor idx ?names c)) (of_nat (contributors idx ?names)) < fl (85 / 100)
        then schoolWide
        else if fl (7 / 10) \<le> ddiv (of_nat (votesFor idx ?names c)) (of_nat (contributors idx ?names))
        then c else unknownClass)"
      unfolding unf bv using a len ne hit v by simp
    show "\<exists>best. 0 < votesFor idx ?names best \<and>
               (\<forall>c. votesFor idx ?names c \<le> votesFor idx ?names best) \<and>
               inferSheetClass ex idx =
                 (if 150 \<le> length (rows ex) \<and>
                     ddiv (of_nat (votesFor idx ?names best)) (of_nat (contributors idx ?names)) < fl (85 / 100)
                  then schoolWide
                  else if fl (7 / 10) \<le> ddiv (of_nat (votesFor idx ?names best))
                                           (of_nat (contributors idx ?names))
                  then best else unknownClass)"
      using pos mx' res by blast
  qed
qed

text \<open>Three contributing entries and at most two votes for any class.\<close>

lemma inferSheetClass_two_of_three:
  assumes need: "\<not> hasClassData ex"
    and sets: "\<forall>n cls. nameToClasses idx n = Some cls \<longrightarrow> distinct cls"
    and nc: "nameCol ex \<noteq> []"
    and three: "contributors idx (sampleNames ex) = 3"
    and two: "\<forall>c. votesFor idx (sampleNames ex) c \<le> 2"
  shows "inferSheetClass ex idx = (if 150 \<le> length (rows ex) then schoolWide else unknownClass)"
proof -
  from inferSheetClass_rule [OF need sets] nc three obtain best where
    p: "0 < votesFor idx (sampleNames ex) best" and
    r: "inferSheetClass ex idx =
         (if 150 \<le> length (rows ex) \<and>
             ddiv (of_nat (votesFor idx (sampleNames ex) best)) (of_nat 3) < fl (85 / 100)
          then schoolWide
          else if fl (7 / 10) \<le> ddiv (of_nat (votesFor idx (sampleNames ex) best)) (of_nat 3)
          then best else unknownClass)"
    by auto
  from p two have "votesFor idx (sampleNames ex) best = 1 \<or> votesFor idx (sampleNames ex) best = 2"
    by (metis One_nat_def Suc_1 le_SucE le_zero_eq less_numeral_extra(3))
  then show ?thesis
    unfolding r by (auto simp: ddiv_def fl_consts)
qed

text \<open>Three contributing entries, all of them voting for one class and for no other.\<close>

lemma inferSheetClass_three_of_three:
  assumes need: "\<not> hasClassData ex"
    and sets: "\<forall>n cls. nameToClasses idx n = Some cls \<longrightarrow> distinct cls"
    and nc: "nameCol ex \<noteq> []"
    and three: "contributors idx (sampleNames ex) = 3"
    and all: "votesFor idx (sampleNames ex) a = 3"
    and none: "\<forall>c. c \<noteq> a \<longrightarrow> votesFor idx (sampleNames ex) c = 0"
  shows "inferSheetClass ex idx = a"
proof -
  from inferSheetClass_rule [OF need sets] nc three obtain best where
    p: "0 < votesFor idx (sampleNames ex) best" and
    r: "inferSheetClass ex idx =
         (if 150 \<le> length (rows ex) \<and>
             ddiv (of_nat (votesFor idx (sampleNames ex) best)) (of_nat 3) < fl (85 / 100)
          then schoolWide
          else if fl (7 / 10) \<le> ddiv (of_nat (votesFor idx (sampleNames ex) best)) (of_nat 3)
          then best else unknownClass)"
    by auto
  from p none have b: "best = a" by force
  show ?thesis
    unfolding r b all by (simp add: ddiv_def fl_int_simps fl_consts)
qed

lemma infer_names: "sampleNames infer_ex = [[0x5F20, 0x4E09], [0x674E, 0x56DB], [0x738B, 0x4E94]]"
  by (simp add: sampleNames_def infer_ex_def infer_rows_def cellText_def rget_def trim_def is_ws_def Let_def)

lemma infer_needs: "\<not> hasClassData infer_ex" "nameCol infer_ex \<noteq> []" "length (rows infer_ex) = 3"
  by (simp_all add: hasClassData_def infer_ex_def infer_rows_def col_name_def)

lemma idx_sets:
  "\<forall>n cls. nameToClasses idx_2_1 n = Some cls \<longrightarrow> distinct cls"
  "\<forall>n cls. nameToClasses idx_3_0 n = Some cls \<longrightarrow> distinct cls"
  by (auto simp: idx_2_1_def idx_3_0_def split: if_splits)

lemma votes_2_1:
  "contributors idx_2_1 (sampleNames infer_ex) = 3"
  "votesFor idx_2_1 (sampleNames infer_ex) c = (if c = [65] then 2 else if c = [66] then 1 else 0)"
  by (auto simp: infer_names contributors_def votesFor_def knownClasses_def idx_2_1_def)

lemma votes_3_0:
  "contributors idx_3_0 (sampleNames infer_ex) = 3"
  "votesFor idx_3_0 (sampleNames infer_ex) c = (if c = [65] then 3 else 0)"
  by (auto simp: infer_names contributors_def votesFor_def knownClasses_def idx_3_0_def)

lemma big_names:
  "sampleNames big_infer_ex = [[0x5F20, 0x4E09], [0x674E, 0x56DB], [0x738B, 0x4E94],
                               [0x8D75, 0x516D], [0x8D75, 0x516D], [0x8D75, 0x516D]]"
proof -
  have "sampleNames big_infer_ex =
      take 6 (filter (\<lambda>n. n \<noteq> []) (map (\<lambda>r. cellText r (nameCol big_infer_ex)) (rows big_infer_ex)))"
    using sampleLoop_take [of "[]" "nameCol big_infer_ex" "rows big_infer_ex"]
    by (simp add: sampleNames_def)
  also have "\<dots> = take 6 ([[0x5F20, 0x4E09], [0x674E, 0x56DB], [0x738B, 0x4E94]] @ replicate 147 [0x8D75, 0x516D])"
    by (simp add: big_infer_ex_def infer_ex_def infer_rows_def cellText_def rget_def trim_def is_ws_def)
  also have "\<dots> = [[0x5F20, 0x4E09], [0x674E, 0x56DB], [0x738B, 0x4E94],
                               [0x8D75, 0x516D], [0x8D75, 0x516D], [0x8D75, 0x516D]]"
    by (simp add: take_Cons' replicate.simps [symmetric] del: replicate.simps)
      (simp add: numeral_eq_Suc)
  finally show ?thesis .
qed

lemma big_needs: "\<not> hasClassData big_infer_ex" "nameCol big_infer_ex \<noteq> []" "length (rows big_infer_ex) = 150"
  by (simp_all add: hasClassData_def big_infer_ex_def infer_ex_def infer_rows_def col_name_def)

lemma big_votes:
  "contributors idx_2_1 (sampleNames big_infer_ex) = 3"
  "votesFor idx_2_1 (sampleNames big_infer_ex) c = (if c = [65] then 2 else if c = [66] then 1 else 0)"
  by (auto simp: big_names contributors_def votesFor_def knownClasses_def idx_2_1_def)

lemma same_names:
  "sampleNames same_name_ex = [[0x5F20, 0x4E09], [0x5F20, 0x4E09], [0x5F20, 0x4E09]]"
  by (simp add: sampleNames_def same_name_ex_def infer_ex_def cellText_def rget_def trim_def is_ws_def
      Let_def numeral_3_eq_3)

lemma same_needs: "\<not> hasClassData same_name_ex" "nameCol same_name_ex \<noteq> []"
  by (simp_all add: hasClassData_def same_name_ex_def infer_ex_def col_name_def)

lemma same_votes:
  "contributors idx_3_0 (sampleNames same_name_ex) = 3"
  "contributingNames idx_3_0 (sampleNames same_name_ex) = 1"
  "votesFor idx_3_0 (sampleNames same_name_ex) c = (if c = [65] then 3 else 0)"
  by (auto simp: same_names contributors_def contributingNames_def votesFor_def knownClasses_def
      idx_3_0_def)

text \<open>
  On a sheet of 150 rows, three contributing names that vote 2 to 1 give "school-wide",
  not "unknown"; and a sheet whose sample is one name three times gets that name's
  class, with a single name contributing.
\<close>

theorem inferSheetClass_decision_counterexample:
  "length (rows big_infer_ex) = 150 \<and>
   contributors idx_2_1 (sampleNames big_infer_ex) = 3 \<and>
   votesFor idx_2_1 (sampleNames big_infer_ex) [65] = 2 \<and>
   votesFor idx_2_1 (sampleNames big_infer_ex) [66] = 1 \<and>
   inferSheetClass big_infer_ex idx_2_1 = schoolWide \<and>
   contributingNames idx_3_0 (sampleNames same_name_ex) = 1 \<and>
   inferSheetClass same_name_ex idx_3_0 = [65]"
proof -
  have "\<forall>c. votesFor idx_2_1 (sampleNames big_infer_ex) c \<le> 2" by (simp add: big_votes)
  from inferSheetClass_two_of_three [OF big_needs(1) idx_sets(1) big_needs(2) big_votes(1) this]
  have 1: "inferSheetClass big_infer_ex idx_2_1 = schoolWide" by (simp add: big_needs)
  have "\<forall>c. c \<noteq> [65] \<longrightarrow> votesFor idx_3_0 (sampleNames same_name_ex) c = 0"
    by (simp add: same_votes)
  from inferSheetClass_three_of_three [OF same_needs(1) idx_sets(2) same_needs(2) same_votes(1) _ this]
  have 2: "inferSheetClass same_name_ex idx_3_0 = [65]" by (simp add: same_votes)
  show ?thesis using 1 2 by (simp add: big_needs big_votes same_votes)
qed

text \<open>
  C5, as the code has it. For a sheet that needs inference (no class data), with the
  class sets of the index free of repetitions as JavaScript sets are, the counts are
  taken over the entries of the name sample, a repeated name counting once per
  occurrence. The result is "unknown" when the sheet has no name column or fewer than
  3 entries contributed evidence (which covers the case of no vote at all); otherwise,
  for a class \<open>best\<close> with the most votes and \<open>ratio\<close> its votes over the number of
  contributing entries, the result is "school-wide" when the sheet has at least 150
  rows and \<open>ratio < 0.85\<close>, \<open>best\<close> when \<open>ratio \<ge> 0.7\<close>, and "unknown" otherwise.
  So 3 contributing entries voting 2 to 1 give "unknown" on a sheet of fewer than 150
  rows and "school-wide" from 150 rows on, and 3 entries voting 3 to 0 give the class.
\<close>

theorem inferSheetClass_decision:
  assumes need: "\<not> hasClassData ex"
    and sets: "\<forall>n cls. nameToClasses idx n = Some cls \<longrightarrow> distinct cls"
  shows "(nameCol ex = [] \<or> contributors idx (sampleNames ex) < 3 \<longrightarrow>
            inferSheetClass ex idx = unknownClass) \<and>
         (nameCol ex \<noteq> [] \<and> 3 \<le> contributors idx (sampleNames ex) \<longrightarrow>
            (\<exists>best. 0 < votesFor idx (sampleNames ex) best \<and>
               (\<forall>c. votesFor idx (sampleNames ex) c \<le> votesFor idx (sampleNames ex) best) \<and>
               inferSheetClass ex idx =
                 (if 150 \<le> length (rows ex) \<and>
                     ddiv (of_nat (votesFor idx (sampleNames ex) best))
                          (of_nat (contributors idx (sampleNames ex))) < fl (85 / 100)
                  then schoolWide
                  else if fl (7 / 10) \<le> ddiv (of_nat (votesFor idx (sampleNames ex) best))
                                           (of_nat (contributors idx (sampleNames ex)))
                  then best else unknownClass))) \<and>
         (nameCol ex \<noteq> [] \<and> contributors idx (sampleNames ex) = 3 \<and>
          (\<forall>c. votesFor idx (sampleNames ex) c \<le> 2) \<longrightarrow>
            inferSheetClass ex idx = (if 150 \<le> length (rows ex) then schoolWide else unknownClass)) \<and>
         (\<forall>a. nameCol ex \<noteq> [] \<and> contributors idx (sampleNames ex) = 3 \<and>
              votesFor idx (sampleNames ex) a = 3 \<and>
              (\<forall>c. c \<noteq> a \<longrightarrow> votesFor idx (sampleNames ex) c = 0) \<longrightarrow>
            inferSheetClass ex idx = a)"
  using inferSheetClass_rule [OF need sets]
    inferSheetClass_two_of_three [OF need sets]
    inferSheetClass_three_of_three [OF need sets]
  by blast

theorem inferSheetClass_decision_witness:
  "inferSheetClass infer_ex idx_2_1 = unknownClass \<and> inferSheetClass infer_ex idx_3_0 = [65]"
proof
  note t = inferSheetClass_decision [OF infer_needs(1) idx_sets(1)]
  have "\<forall>c. votesFor idx_2_1 (sampleNames infer_ex) c \<le> 2" by (simp add: votes_2_1)
  with t infer_needs(2) votes_2_1(1)
  have "inferSheetClass infer_ex idx_2_1 =
      (if 150 \<le> length (rows infer_ex) then schoolWide else unknownClass)"
    by blast
  then show "inferSheetClass infer_ex idx_2_1 = unknownClass"
    by (simp add: infer_needs(3))
next
  note t = inferSheetClass_decision [OF infer_needs(1) idx_sets(2)]
  have "\<forall>c. c \<noteq> [65] \<longrightarrow> votesFor idx_3_0 (sampleNames infer_ex) c = 0"
    by (simp add: votes_3_0)
  moreover have "votesFor idx_3_0 (sampleNames infer_ex) [65] = 3" by (simp add: votes_3_0)
  ultimately show "inferSheetClass infer_ex idx_3_0 = [65]"
    using t infer_needs(2) votes_3_0(1) by blast
qed

subsection \<open>Locating the header row\<close>

lemma headerStep_eq:
  "headerStep m (b, s) r =
     (if rowQualifies (getRow m r) \<and> s < rowScore (getRow m r) then (r, rowScore (getRow m r))
      else (b, s))"
  by (auto simp: headerStep_def rowQualifies_def rowScore_def Let_def)

lemma header_fold:
  "foldl (headerStep m) (b0, s0) [0 ..< n] = (b, s) \<Longrightarrow>
   (\<forall>r < n. rowQualifies (getRow m r) \<longrightarrow> rowScore (getRow m r) \<le> s) \<and> s0 \<le> s \<and>
   ((b = b0 \<and> s = s0) \<or>
    (b < n \<and> rowQualifies (getRow m b) \<and> s = rowScore (getRow m b) \<and> s0 < s \<and>
     (\<forall>r < b. rowQualifies (getRow m r) \<longrightarrow> rowScore (getRow m r) < s)))"
proof (induction n arbitrary: b s)
  case 0
  then show ?case by simp
next
  case (Suc n)
  obtain b1 s1 where st: "foldl (headerStep m) (b0, s0) [0 ..< n] = (b1, s1)"
    by (meson surj_pair)
  note IH = Suc.IH [OF st]
  from Suc.prems have step: "headerStep m (b1, s1) n = (b, s)" by (simp add: st)
  show ?case
  proof (cases "rowQualifies (getRow m n) \<and> s1 < rowScore (getRow m n)")
    case True
    then have bs: "b = n" "s = rowScore (getRow m n)" using step by (auto simp: headerStep_eq)
    have "\<forall>r < Suc n. rowQualifies (getRow m r) \<longrightarrow> rowScore (getRow m r) \<le> s"
      using IH True bs by (auto simp: less_Suc_eq)
    moreover have "\<forall>r < b. rowQualifies (getRow m r) \<longrightarrow> rowScore (getRow m r) < s"
      using IH True bs by fastforce
    moreover have "s0 < s" using IH True bs by linarith
    ultimately show ?thesis using True bs by auto
  next
    case False
    then have bs: "b = b1" "s = s1" using step by (auto simp: headerStep_eq)
    have "\<forall>r < Suc n. rowQualifies (getRow m r) \<longrightarrow> rowScore (getRow m r) \<le> s"
      using IH False bs by (auto simp: less_Suc_eq)
    then show ?thesis using IH bs by auto
  qed
qed

lemma rowScore_nonneg: "0 \<le> rowScore row"
  by (simp add: rowScore_def)

text \<open>The matrix of a title row alone: the locator returns row 0, the title row.\<close>

theorem detectHeaderStartRow_title_counterexample:
  "looksLikeTitle (getRow [title_row] (detectHeaderStartRow [title_row]))"
  by (simp add: detectHeaderStartRow_def headerStep_def getRow_def title_row_def looksLikeTitle_def
      nonEmptyCount_def trim_def is_ws_def Let_def)

text \<open>
  C9, as the code has it. Over the rows \<open>0 .. min(18, rowCount) - 1\<close>, the candidates are
  the rows that are not title rows and have at least 3 non-empty cells or a keyword.
  When there is a candidate, the locator returns the earliest candidate of maximal score,
  which is not a title row; when there is none it returns 0, whatever row 0 is. In
  particular, with a title row at row 0 and a row 2 with at least 3 non-empty cells
  and a keyword, the result is never 0, and it is 2 when row 1 is no candidate or
  scores less than row 2 and no later candidate scores more than row 2.
\<close>

theorem detectHeaderStartRow_spec:
  "((\<forall>r < min 18 (length m). \<not> rowQualifies (getRow m r)) \<longrightarrow> detectHeaderStartRow m = 0) \<and>
   ((\<exists>r < min 18 (length m). rowQualifies (getRow m r)) \<longrightarrow>
      detectHeaderStartRow m < min 18 (length m) \<and>
      rowQualifies (getRow m (detectHeaderStartRow m)) \<and>
      \<not> looksLikeTitle (getRow m (detectHeaderStartRow m)) \<and>
      (\<forall>r < min 18 (length m). rowQualifies (getRow m r) \<longrightarrow>
          rowScore (getRow m r) \<le> rowScore (getRow m (detectHeaderStartRow m))) \<and>
      (\<forall>r < detectHeaderStartRow m. rowQualifies (getRow m r) \<longrightarrow>
          rowScore (getRow m r) < rowScore (getRow m (detectHeaderStartRow m)))) \<and>
   (3 \<le> length m \<and> looksLikeTitle (getRow m 0) \<and>
    3 \<le> nonEmptyCount (getRow m 2) \<and> hasKeyword (getRow m 2) \<longrightarrow>
      detectHeaderStartRow m \<noteq> 0 \<and>
      ((rowQualifies (getRow m 1) \<longrightarrow> rowScore (getRow m 1) < rowScore (getRow m 2)) \<and>
       (\<forall>r < min 18 (length m). 2 < r \<and> rowQualifies (getRow m r) \<longrightarrow>
           rowScore (getRow m r) \<le> rowScore (getRow m 2)) \<longrightarrow>
         detectHeaderStartRow m = 2))"
proof -
  let ?n = "min 18 (length m)"
  obtain b s where st: "foldl (headerStep m) (0, - 1) [0 ..< ?n] = (b, s)"
    by (meson surj_pair)
  have d: "detectHeaderStartRow m = b" by (simp add: detectHeaderStartRow_def st)
  from header_fold [OF st] have
    le: "\<forall>r < ?n. rowQualifies (getRow m r) \<longrightarrow> rowScore (getRow m r) \<le> s" and
    alt: "(b = 0 \<and> s = - 1) \<or>
          (b < ?n \<and> rowQualifies (getRow m b) \<and> s = rowScore (getRow m b) \<and> - 1 < s \<and>
           (\<forall>r < b. rowQualifies (getRow m r) \<longrightarrow> rowScore (getRow m r) < s))"
    by blast+
  have none: "(\<forall>r < ?n. \<not> rowQualifies (getRow m r)) \<longrightarrow> b = 0"
    using alt by auto
  have some: "(\<exists>r < ?n. rowQualifies (getRow m r)) \<longrightarrow>
      b < ?n \<and> rowQualifies (getRow m b) \<and> s = rowScore (getRow m b) \<and>
      (\<forall>r < b. rowQualifies (getRow m r) \<longrightarrow> rowScore (getRow m r) < s)"
  proof
    assume "\<exists>r < ?n. rowQualifies (getRow m r)"
    then obtain r where r: "r < ?n" "rowQualifies (getRow m r)" by blast
    with le have "rowScore (getRow m r) \<le> s" by blast
    with rowScore_nonneg [of "getRow m r"] have "s \<noteq> - 1" by linarith
    with alt show "b < ?n \<and> rowQualifies (getRow m b) \<and> s = rowScore (getRow m b) \<and>
      (\<forall>r < b. rowQualifies (getRow m r) \<longrightarrow> rowScore (getRow m r) < s)" by blast
  qed
  have part2: "(\<exists>r < ?n. rowQualifies (getRow m r)) \<longrightarrow>
      b < ?n \<and> rowQualifies (getRow m b) \<and> \<not> looksLikeTitle (getRow m b) \<and>
      (\<forall>r < ?n. rowQualifies (getRow m r) \<longrightarrow> rowScore (getRow m r) \<le> rowScore (getRow m b)) \<and>
      (\<forall>r < b. rowQualifies (getRow m r) \<longrightarrow> rowScore (getRow m r) < rowScore (getRow m b))"
    using some le by (auto simp: rowQualifies_def)
  have part3: "3 \<le> length m \<and> looksLikeTitle (getRow m 0) \<and>
    3 \<le> nonEmptyCount (getRow m 2) \<and> hasKeyword (getRow m 2) \<longrightarrow>
      b \<noteq> 0 \<and>
      ((rowQualifies (getRow m 1) \<longrightarrow> rowScore (getRow m 1) < rowScore (getRow m 2)) \<and>
       (\<forall>r < ?n. 2 < r \<and> rowQualifies (getRow m r) \<longrightarrow> rowScore (getRow m r) \<le> rowScore (getRow m 2)) \<longrightarrow>
         b = 2)"
  proof (intro impI conjI)
    assume a: "3 \<le> length m \<and> looksLikeTitle (getRow m 0) \<and>
      3 \<le> nonEmptyCount (getRow m 2) \<and> hasKeyword (getRow m 2)"
    then have q2: "rowQualifies (getRow m 2)" "2 < ?n"
      by (auto simp: rowQualifies_def looksLikeTitle_def nonEmptyCount_def Let_def)
    then have ex: "\<exists>r < ?n. rowQualifies (getRow m r)" by blast
    from part2 ex have qb: "rowQualifies (getRow m b)" by blast
    from a have "\<not> rowQualifies (getRow m 0)" by (simp add: rowQualifies_def)
    with qb show "b \<noteq> 0" by metis
    assume c: "(rowQualifies (getRow m 1) \<longrightarrow> rowScore (getRow m 1) < rowScore (getRow m 2)) \<and>
       (\<forall>r < ?n. 2 < r \<and> rowQualifies (getRow m r) \<longrightarrow> rowScore (getRow m r) \<le> rowScore (getRow m 2))"
    from part2 ex have
      mx: "\<forall>r < ?n. rowQualifies (getRow m r) \<longrightarrow> rowScore (getRow m r) \<le> rowScore (getRow m b)" and
      fst: "\<forall>r < b. rowQualifies (getRow m r) \<longrightarrow> rowScore (getRow m r) < rowScore (getRow m b)" and
      bn: "b < ?n"
      by blast+
    show "b = 2"
    proof (rule ccontr)
      assume ne: "b \<noteq> 2"
      from \<open>b \<noteq> 0\<close> ne consider "b = 1" | "2 < b" by arith
      then show False
      proof cases
        case 1
        with qb c have "rowScore (getRow m 1) < rowScore (getRow m 2)" by simp
        moreover from mx q2 1 have "rowScore (getRow m 2) \<le> rowScore (getRow m 1)" by simp
        ultimately show False by simp
      next
        case 2
        with fst q2 have "rowScore (getRow m 2) < rowScore (getRow m b)" by blast
        moreover from c bn 2 qb have "rowScore (getRow m b) \<le> rowScore (getRow m 2)" by blast
        ultimately show False by simp
      qed
    qed
  qed
  show ?thesis unfolding d using none part2 part3 by blast
qed


lemma titled_rows:
  "getRow titled_matrix 0 = title_row" "getRow titled_matrix 1 = [CStr [], CStr [], CStr []]"
  "getRow titled_matrix (Suc 0) = [CStr [], CStr [], CStr []]"
  "getRow titled_matrix 2 = header_row"
  "getRow titled_matrix 3 = [CStr [0x5F20, 0x4E09], CNum 5, CNum 500]"
  "length titled_matrix = 4"
  by (simp_all add: titled_matrix_def getRow_def)

lemma titled_facts:
  "looksLikeTitle title_row" "nonEmptyCount header_row = 3" "hasKeyword header_row"
  "\<not> rowQualifies [CStr [], CStr [], CStr []]"
  "rowScore header_row = 15"
  "rowScore [CStr [0x5F20, 0x4E09], CNum 5, CNum 500] = 3"
  by (simp_all add: title_row_def header_row_def looksLikeTitle_def nonEmptyCount_def hasKeyword_def
      headerKeywords_def rowQualifies_def rowScore_def trim_def is_ws_def Let_def num_str_def
      digits_of.simps)

theorem detectHeaderStartRow_spec_witness:
  "looksLikeTitle (getRow titled_matrix 0) \<and> detectHeaderStartRow titled_matrix = 2"
proof -
  have a: "3 \<le> length titled_matrix \<and> looksLikeTitle (getRow titled_matrix 0) \<and>
    3 \<le> nonEmptyCount (getRow titled_matrix 2) \<and> hasKeyword (getRow titled_matrix 2)"
    by (simp add: titled_rows titled_facts)
  have b: "rowQualifies (getRow titled_matrix 1) \<longrightarrow>
      rowScore (getRow titled_matrix 1) < rowScore (getRow titled_matrix 2)"
    by (simp add: titled_rows titled_facts)
  have c: "\<forall>r < min 18 (length titled_matrix). 2 < r \<and> rowQualifies (getRow titled_matrix r) \<longrightarrow>
           rowScore (getRow titled_matrix r) \<le> rowScore (getRow titled_matrix 2)"
  proof (intro allI impI)
    fix r assume "r < min 18 (length titled_matrix)" "2 < r \<and> rowQualifies (getRow titled_matrix r)"
    then have "r = 3" by (simp add: titled_rows)
    then show "rowScore (getRow titled_matrix r) \<le> rowScore (getRow titled_matrix 2)"
      by (simp add: titled_rows titled_facts)
  qed
  show ?thesis
    using a b c detectHeaderStartRow_spec [of titled_matrix] by blast
qed

subsection \<open>Filling merged cells\<close>

lemma cellAt_setCell: "cellAt (setCell row c v) c' = (if c' = c then v else cellAt row c')"
  by (auto simp: cellAt_def setCell_def nth_append nth_Cons')

lemma getRow_setRow: "getRow (setRow m r row) r' = (if r' = r then row else getRow m r')"
  by (auto simp: getRow_def setRow_def nth_append nth_Cons')

lemma length_setRow: "length m \<le> length (setRow m r row)"
  by (simp add: setRow_def)

lemma cellAt_fillCell:
  "cellAt (fillCell tlv row c) c' =
     (if c' = c \<and> isEmptyCell (cellAt row c) then tlv else cellAt row c')"
  by (simp add: fillCell_def cellAt_setCell)

lemma cellAt_fillCells:
  "\<not> isEmptyCell tlv \<Longrightarrow>
   cellAt (foldl (fillCell tlv) row xs) c' =
     (if c' \<in> set xs \<and> isEmptyCell (cellAt row c') then tlv else cellAt row c')"
proof (induction xs arbitrary: row)
  case Nil
  then show ?case by simp
next
  case (Cons x xs)
  show ?case
    using Cons.IH [OF Cons.prems, of "fillCell tlv row x"] Cons.prems
    by (auto simp: cellAt_fillCell)
qed

lemma matrixCell_fillRow:
  assumes ne: "\<not> isEmptyCell tlv"
  shows "matrixCell (fillRow tlv sc ec m r) r' c' =
     (if r' = r \<and> sc \<le> c' \<and> c' \<le> ec \<and> isEmptyCell (matrixCell m r' c') then tlv
      else matrixCell m r' c')"
proof -
  have mem: "c' \<in> set [sc ..< Suc ec] \<longleftrightarrow> sc \<le> c' \<and> c' \<le> ec" by auto
  have row: "cellAt (foldl (fillCell tlv) (getRow m r) [sc ..< Suc ec]) c' =
     (if (sc \<le> c' \<and> c' \<le> ec) \<and> isEmptyCell (cellAt (getRow m r) c') then tlv
      else cellAt (getRow m r) c')"
    unfolding cellAt_fillCells [OF ne] mem ..
  show ?thesis
  proof (cases "r' = r")
    case True
    then show ?thesis
      unfolding matrixCell_def fillRow_def getRow_setRow using row by simp
  next
    case False
    then show ?thesis
      unfolding matrixCell_def fillRow_def getRow_setRow by simp
  qed
qed

lemma matrixCell_fillRows:
  "\<not> isEmptyCell tlv \<Longrightarrow>
   matrixCell (foldl (fillRow tlv sc ec) m xs) r' c' =
     (if r' \<in> set xs \<and> sc \<le> c' \<and> c' \<le> ec \<and> isEmptyCell (matrixCell m r' c') then tlv
      else matrixCell m r' c')"
proof (induction xs arbitrary: m)
  case Nil
  then show ?case by simp
next
  case (Cons x xs)
  show ?case
    using Cons.IH [OF Cons.prems, of "fillRow tlv sc ec m x"] Cons.prems
    by (auto simp: matrixCell_fillRow)
qed

lemma length_fillRows: "length m \<le> length (foldl (fillRow tlv sc ec) m xs)"
proof (induction xs arbitrary: m)
  case Nil
  then show ?case by simp
next
  case (Cons x xs)
  have "length m \<le> length (fillRow tlv sc ec m x)" by (simp add: fillRow_def length_setRow)
  also have "\<dots> \<le> length (foldl (fillRow tlv sc ec) (fillRow tlv sc ec m x) xs)" by (rule Cons.IH)
  finally show ?case by simp
qed

lemma matrixCell_applyMerge:
  "matrixCell (applyMerge ws mx m rg) r c =
     (if mergeApplies ws mx rg r c \<and> isEmptyCell (matrixCell m r c)
      then getCellValueMerged ws (s_r rg) (s_c rg) else matrixCell m r c)"
proof (cases "s_r rg \<ge> mx \<or> isEmptyCell (getCellValueMerged ws (s_r rg) (s_c rg))")
  case True
  then show ?thesis by (auto simp: applyMerge_def mergeApplies_def Let_def)
next
  case False
  then have lt: "s_r rg < mx" and ne: "\<not> isEmptyCell (getCellValueMerged ws (s_r rg) (s_c rg))"
    by auto
  have rng: "r \<in> set [s_r rg ..< Suc (min (e_r rg) (mx - 1))] \<longleftrightarrow> s_r rg \<le> r \<and> r \<le> e_r rg \<and> r < mx"
    using lt by auto
  have am: "applyMerge ws mx m rg =
      foldl (fillRow (getCellValueMerged ws (s_r rg) (s_c rg)) (s_c rg) (e_c rg)) m
            [s_r rg ..< Suc (min (e_r rg) (mx - 1))]"
    unfolding applyMerge_def Let_def using lt ne by (simp only: if_False not_le [symmetric])
  have ap: "mergeApplies ws mx rg r c \<longleftrightarrow>
      (s_r rg \<le> r \<and> r \<le> e_r rg \<and> r < mx) \<and> s_c rg \<le> c \<and> c \<le> e_c rg"
    using lt ne by (auto simp: mergeApplies_def)
  show ?thesis
    unfolding am matrixCell_fillRows [OF ne] rng ap by simp
qed

lemma length_applyMerge: "length m \<le> length (applyMerge ws mx m rg)"
  by (simp add: applyMerge_def Let_def length_fillRows)

lemma length_applyMerges: "length m \<le> length (foldl (applyMerge ws mx) m rgs)"
proof (induction rgs arbitrary: m)
  case Nil
  then show ?case by simp
next
  case (Cons rg rgs)
  have "length m \<le> length (applyMerge ws mx m rg)" by (rule length_applyMerge)
  also have "\<dots> \<le> length (foldl (applyMerge ws mx) (applyMerge ws mx m rg) rgs)" by (rule Cons.IH)
  finally show ?case by simp
qed

lemma matrixCell_applyMerges:
  "matrixCell (foldl (applyMerge ws mx) m rgs) r c =
     (if isEmptyCell (matrixCell m r c)
      then (case find (\<lambda>rg. mergeApplies ws mx rg r c) rgs of
              Some rg \<Rightarrow> getCellValueMerged ws (s_r rg) (s_c rg)
            | None \<Rightarrow> matrixCell m r c)
      else matrixCell m r c)"
proof (induction rgs arbitrary: m)
  case Nil
  then show ?case by simp
next
  case (Cons rg rgs)
  show ?case
  proof (cases "mergeApplies ws mx rg r c \<and> isEmptyCell (matrixCell m r c)")
    case True
    then have ne: "\<not> isEmptyCell (getCellValueMerged ws (s_r rg) (s_c rg))"
      by (simp add: mergeApplies_def)
    have "matrixCell (applyMerge ws mx m rg) r c = getCellValueMerged ws (s_r rg) (s_c rg)"
      using True by (simp add: matrixCell_applyMerge)
    then show ?thesis
      using True ne Cons.IH [of "applyMerge ws mx m rg"] by simp
  next
    case False
    then have eq: "matrixCell (applyMerge ws mx m rg) r c = matrixCell m r c"
      by (simp only: matrixCell_applyMerge if_not_P if_False)
    have IH: "matrixCell (foldl (applyMerge ws mx) (applyMerge ws mx m rg) rgs) r c =
     (if isEmptyCell (matrixCell m r c)
      then (case find (\<lambda>rg. mergeApplies ws mx rg r c) rgs of
              Some rg \<Rightarrow> getCellValueMerged ws (s_r rg) (s_c rg)
            | None \<Rightarrow> matrixCell m r c)
      else matrixCell m r c)"
      by (simp only: Cons.IH [of "applyMerge ws mx m rg"] eq)
    show ?thesis
    proof (cases "isEmptyCell (matrixCell m r c)")
      case True
      with False have "\<not> mergeApplies ws mx rg r c" by simp
      then show ?thesis using IH by simp
    next
      case F: False
      then show ?thesis using IH by simp
    qed
  qed
qed

lemma matrixCell_pad: "matrixCell (m @ replicate k []) r c = matrixCell m r c"
  by (auto simp: matrixCell_def getRow_def cellAt_def nth_append)


text \<open>
  Without a merge range the grid is returned as it is: a grid of one row stays a grid of
  one row, fewer than 30.
\<close>

theorem applyMergesToMatrix_rows_counterexample:
  "length (applyMergesToMatrix ws_plain [[CStr [65]]] 30) = 1"
  by (simp add: applyMergesToMatrix_def ws_plain_def)

text \<open>
  C8, as the code has it. The normaliser is total (it never raises). Without a merge
  range the grid is returned unchanged, so an empty grid stays empty; with at least
  one merge range the result has at least \<open>maxRows\<close> rows. Every cell that is not empty
  in the grid keeps its value. An empty cell of the grid that lies, in a row below
  \<open>maxRows\<close>, in a merge range whose top row is below \<open>maxRows\<close> and whose top-left
  value (read from the worksheet) is not empty, is filled with the top-left value of the
  first such range of the list, and is not empty afterwards; every other cell reads as
  before.
\<close>

theorem applyMergesToMatrix_spec:
  "(merges ws = [] \<longrightarrow> applyMergesToMatrix ws m maxRows = m) \<and>
   (merges ws \<noteq> [] \<longrightarrow> maxRows \<le> length (applyMergesToMatrix ws m maxRows)) \<and>
   (\<forall>r c. \<not> isEmptyCell (matrixCell m r c) \<longrightarrow>
            matrixCell (applyMergesToMatrix ws m maxRows) r c = matrixCell m r c) \<and>
   (\<forall>r c. isEmptyCell (matrixCell m r c) \<longrightarrow>
            matrixCell (applyMergesToMatrix ws m maxRows) r c =
              (case find (\<lambda>rg. mergeApplies ws maxRows rg r c) (merges ws) of
                 Some rg \<Rightarrow> getCellValueMerged ws (s_r rg) (s_c rg)
               | None \<Rightarrow> matrixCell m r c)) \<and>
   (\<forall>rg \<in> set (merges ws). \<forall>r c. mergeApplies ws maxRows rg r c \<longrightarrow>
            \<not> isEmptyCell (matrixCell (applyMergesToMatrix ws m maxRows) r c))"
proof -
  let ?res = "applyMergesToMatrix ws m maxRows"
  have cell: "matrixCell ?res r c =
     (if isEmptyCell (matrixCell m r c)
      then (case find (\<lambda>rg. mergeApplies ws maxRows rg r c) (merges ws) of
              Some rg \<Rightarrow> getCellValueMerged ws (s_r rg) (s_c rg)
            | None \<Rightarrow> matrixCell m r c)
      else matrixCell m r c)" for r c
  proof (cases "merges ws = []")
    case True
    then show ?thesis by (simp add: applyMergesToMatrix_def)
  next
    case False
    then show ?thesis
      by (simp add: applyMergesToMatrix_def matrixCell_applyMerges matrixCell_pad cong: option.case_cong)
  qed
  have len: "merges ws \<noteq> [] \<longrightarrow> maxRows \<le> length ?res"
  proof
    assume ne: "merges ws \<noteq> []"
    have "maxRows \<le> length (m @ replicate (maxRows - length m) [])" by simp
    also have "\<dots> \<le> length (foldl (applyMerge ws maxRows) (m @ replicate (maxRows - length m) []) (merges ws))"
      by (rule length_applyMerges)
    finally show "maxRows \<le> length ?res" using ne by (simp add: applyMergesToMatrix_def)
  qed
  have filled: "\<not> isEmptyCell (matrixCell ?res r c)"
    if rg: "rg \<in> set (merges ws)" and ap: "mergeApplies ws maxRows rg r c" for rg r c
  proof (cases "isEmptyCell (matrixCell m r c)")
    case False
    then show ?thesis by (simp add: cell)
  next
    case True
    from rg ap obtain rg' where f: "find (\<lambda>rg. mergeApplies ws maxRows rg r c) (merges ws) = Some rg'"
      by (cases "find (\<lambda>rg. mergeApplies ws maxRows rg r c) (merges ws)") (auto simp: find_None_iff)
    then have "mergeApplies ws maxRows rg' r c" by (auto simp: find_Some_iff)
    then have "\<not> isEmptyCell (getCellValueMerged ws (s_r rg') (s_c rg'))"
      by (simp add: mergeApplies_def)
    then show ?thesis using True f by (simp add: cell)
  qed
  have same: "merges ws = [] \<longrightarrow> ?res = m" by (simp add: applyMergesToMatrix_def)
  have keep: "\<forall>r c. \<not> isEmptyCell (matrixCell m r c) \<longrightarrow> matrixCell ?res r c = matrixCell m r c"
    by (simp add: cell)
  have fill: "\<forall>r c. isEmptyCell (matrixCell m r c) \<longrightarrow>
            matrixCell ?res r c =
              (case find (\<lambda>rg. mergeApplies ws maxRows rg r c) (merges ws) of
                 Some rg \<Rightarrow> getCellValueMerged ws (s_r rg) (s_c rg)
               | None \<Rightarrow> matrixCell m r c)"
    by (simp add: cell)
  have all: "\<forall>rg \<in> set (merges ws). \<forall>r c. mergeApplies ws maxRows rg r c \<longrightarrow>
            \<not> isEmptyCell (matrixCell ?res r c)"
    using filled by blast
  from same len keep fill all show ?thesis by (intro conjI)
qed

lemma merged_tl: "getCellValueMerged ws_merged 0 0 = CStr [65]"
  by (simp add: getCellValueMerged_def ws_merged_def isEmptyCell_def trim_def is_ws_def)

lemma merged_applies:
  "mergeApplies ws_merged 30 \<lparr> s_r = 0, s_c = 0, e_r = 0, e_c = 2 \<rparr> 0 1"
  using merged_tl by (simp add: mergeApplies_def isEmptyCell_def trim_def is_ws_def)

theorem applyMergesToMatrix_spec_witness:
  "30 \<le> length (applyMergesToMatrix ws_merged [[CStr [65], CStr [], CStr [32], CStr [66]]] 30) \<and>
   matrixCell (applyMergesToMatrix ws_merged [[CStr [65], CStr [], CStr [32], CStr [66]]] 30) 0 1 = CStr [65] \<and>
   matrixCell (applyMergesToMatrix ws_merged [[CStr [65], CStr [], CStr [32], CStr [66]]] 30) 0 3 = CStr [66]"
proof -
  let ?m = "[[CStr [65], CStr [], CStr [32], CStr [66]]]"
  note t = applyMergesToMatrix_spec [of ws_merged ?m 30]
  have ne: "merges ws_merged \<noteq> []" by (simp add: ws_merged_def)
  have e: "isEmptyCell (matrixCell ?m 0 1)" "\<not> isEmptyCell (matrixCell ?m 0 3)"
    "matrixCell ?m 0 3 = CStr [66]"
    by (simp_all add: matrixCell_def getRow_def cellAt_def isEmptyCell_def trim_def is_ws_def)
  have f: "find (\<lambda>rg. mergeApplies ws_merged 30 rg 0 1) (merges ws_merged)
             = Some \<lparr> s_r = 0, s_c = 0, e_r = 0, e_c = 2 \<rparr>"
    using merged_applies by (simp add: ws_merged_def)
  have 1: "30 \<le> length (applyMergesToMatrix ws_merged ?m 30)" using t ne by blast
  have 2: "matrixCell (applyMergesToMatrix ws_merged ?m 30) 0 1 = CStr [65]"
    using t e(1) f merged_tl by simp
  have 3: "matrixCell (applyMergesToMatrix ws_merged ?m 30) 0 3 = CStr [66]"
    using t e(2,3) by simp
  show ?thesis using 1 2 3 by blast
qed

end
